theory Spec2Isabelle
  imports Main "HOL-Library.AList"
begin

section \<open>The chat gateway: data model\<close>

text \<open>
  The development embeds the class \<open>ChatGateway\<close> (the socket gateway of the chat
  backend). Identifiers (user ids, socket ids, call ids, tokens) are JavaScript strings;
  the three \<open>Map\<close> fields are association lists kept in insertion order, with
  \<open>AList.update\<close> for \<open>Map.set\<close> (an existing key keeps its place, a new key goes
  last), \<open>AList.delete\<close> for \<open>Map.delete\<close> and \<open>map_of\<close> for \<open>Map.get\<close>.
  Times are milliseconds since the epoch, as \<open>Date.now()\<close> gives them.
  An \<open>async\<close> handler is run to completion as one step, so two handlers never
  interleave at an \<open>await\<close>. A handler returns the new gateway and the events it
  emitted, in order. The payloads that the gateway passes on unread (offers, answers,
  candidates) are strings. Logging is left out.
\<close>

datatype call_type = audio | video | screen

datatype call_status = initiated | accepted | rejected | ended

datatype message_type = text_message | file_message

text \<open>A row of the table \<open>users\<close>, with the columns the gateway selects.\<close>

record user =
  user_id :: string
  username :: string
  email :: string
  avatar :: "string option"

text \<open>The selection \<open>{id, username, avatar}\<close> that a call includes for caller and receiver.\<close>

type_synonym profile = "string \<times> string \<times> string option"

definition profile_of :: "user \<Rightarrow> profile" where
  "profile_of u = (user_id u, username u, avatar u)"

text \<open>A row of the table \<open>calls\<close> (the migration \<open>add_calls\<close>).\<close>

record call_row =
  call_id :: string
  call_type :: call_type
  status :: call_status
  duration :: "int option"
  createdAt :: int
  endedAt :: "int option"
  callerId :: string
  receiverId :: string

text \<open>
  An entry of \<open>activeCalls\<close>: the created row with its included profiles, spread
  into an object together with the two socket ids.
\<close>

record call = call_row +
  caller :: profile
  receiver :: profile
  callerSocketId :: string
  receiverSocketId :: string

record message =
  msg_id :: string
  content :: string
  msg_type :: message_type
  fileName :: "string option"
  fileSize :: "int option"
  fileType :: "string option"
  senderId :: string
  receiverId_m :: string
  isRead :: bool
  createdAt_m :: int

text \<open>A message as \<open>prisma.message\<close> returns it with \<open>include: {sender, receiver}\<close>.\<close>

record message_full = message +
  sender :: user
  receiver_m :: user

text \<open>The store behind \<open>PrismaService\<close>; \<open>up\<close> tells whether it answers at all.\<close>

record prisma =
  up :: bool
  users :: "user list"
  calls :: "call_row list"
  messages :: "message list"

text \<open>A connected client: \<open>client.id\<close> and \<open>client.handshake.auth.token\<close>.\<close>

record socket =
  client_id :: string
  token :: "string option"

text \<open>
  The gateway object. \<open>sockets\<close> are the ids in \<open>server.sockets.sockets\<close>, which the
  transport maintains; \<open>timers\<close> are the callbacks \<open>handleDisconnect\<close> has handed to
  \<open>setTimeout\<close> and that have not run yet, each with the user id and socket id it closes
  over.
\<close>

record gateway =
  sockets :: "string list"
  connectedUsers :: "(string \<times> string) list"
  userActiveChats :: "(string \<times> string) list"
  activeCalls :: "(string \<times> call) list"
  jwtService :: "string \<Rightarrow> string option"
  prisma :: prisma
  timers :: "(string \<times> string) list"

text \<open>The payload of \<open>call_failed\<close> is either \<open>{reason}\<close> or \<open>{message}\<close>.\<close>

datatype failure = Reason string | Message string

text \<open>
  Outbound events, by their names. \<open>receive_message\<close> carries \<open>isNewMessage: true\<close>
  always; its last argument, and the last argument of \<open>message_sent\<close>, is the field
  \<open>isReceiverOnline\<close> where the payload has one.
\<close>

datatype out_event =
    file_webrtc_offer string string
  | file_webrtc_answer string string
  | file_webrtc_ice_candidate string string
  | receive_message message_full "bool option"
  | message_sent message_full "bool option"
  | error_event string
  | user_online_status string bool
  | call_failed failure
  | call_initiated string
  | incoming_call string profile call_type
  | call_accepted string
  | call_rejected string
  | call_ended string
  | webrtc_offer string string
  | webrtc_answer string string
  | webrtc_ice_candidate string string
  | messages_history "message_full list"
  | messages_marked_read string string
  | unread_counts "(string \<times> nat) list"

text \<open>\<open>server.to(room).emit(...)\<close> and \<open>client.emit(...)\<close>.\<close>

datatype dest = to_room string | to_client string

type_synonym emission = "dest \<times> out_event"

section \<open>The collaborators\<close>

text \<open>A JavaScript string is truthy unless it is empty.\<close>

definition truthy :: "string \<Rightarrow> bool" where
  "truthy s = (s \<noteq> [])"

text \<open>
  Modelled from the spec: the Credential Verifier (\<open>JwtService.verify\<close>, a library
  that is not part of the sources) takes an opaque token and returns a user identifier
  or fails; a missing token fails. The result is \<open>payload.sub\<close>, which the
  handlers below call \<open>sub\<close> where the source's name for it is a field name here.
\<close>

definition verify :: "gateway \<Rightarrow> socket \<Rightarrow> string option" where
  "verify g client = (case token client of None \<Rightarrow> None | Some t \<Rightarrow> jwtService g t)"

definition find_user :: "prisma \<Rightarrow> string \<Rightarrow> user option" where
  "find_user db u = find (\<lambda>x. user_id x = u) (users db)"

text \<open>
  Modelled from the spec: the Durable Store (\<open>PrismaService\<close>, not part of the
  sources) creates and updates call records. The constraints are those of the migration:
  \<open>id\<close> is the primary key, \<open>callerId\<close> and \<open>receiverId\<close> reference \<open>users\<close>,
  \<open>duration\<close> and \<open>endedAt\<close> are nullable and \<open>createdAt\<close> defaults to the current
  time. The new row's id is chosen by the store and is an argument here. An operation
  fails (the \<open>await\<close> throws) when the store is down or a constraint is violated; an
  update of a row that does not exist fails.
\<close>

definition call_create ::
  "prisma \<Rightarrow> string \<Rightarrow> int \<Rightarrow> call_type \<Rightarrow> call_status \<Rightarrow> string \<Rightarrow> string
     \<Rightarrow> (prisma \<times> call_row \<times> profile \<times> profile) option" where
  "call_create db newId now ty st cr rc =
     (if \<not> up db \<or> newId \<in> set (map call_id (calls db)) then None
      else case find_user db cr of
        None \<Rightarrow> None
      | Some c \<Rightarrow>
         (case find_user db rc of
            None \<Rightarrow> None
          | Some r \<Rightarrow>
             (let row = \<lparr>call_id = newId, call_type = ty, status = st, duration = None,
                         createdAt = now, endedAt = None, callerId = cr, receiverId = rc\<rparr>
              in Some (db\<lparr>calls := calls db @ [row]\<rparr>, row, profile_of c, profile_of r))))"

definition call_update ::
  "prisma \<Rightarrow> string \<Rightarrow> (call_row \<Rightarrow> call_row) \<Rightarrow> prisma option" where
  "call_update db cid f =
     (if up db \<and> cid \<in> set (map call_id (calls db))
      then Some (db\<lparr>calls := map (\<lambda>r. if call_id r = cid then f r else r) (calls db)\<rparr>)
      else None)"

text \<open>The status the store holds for a call id, if it holds the call.\<close>

definition call_status_of :: "prisma \<Rightarrow> string \<Rightarrow> call_status option" where
  "call_status_of db cid = map_option status (find (\<lambda>r. call_id r = cid) (calls db))"

definition call_row_of :: "prisma \<Rightarrow> string \<Rightarrow> call_row option" where
  "call_row_of db cid = find (\<lambda>r. call_id r = cid) (calls db)"

section \<open>The gateway's methods\<close>

definition isSocketConnected :: "gateway \<Rightarrow> string \<Rightarrow> bool" where
  "isSocketConnected g socketId = (socketId \<in> set (sockets g))"

text \<open>The test \<open>socketId && this.isSocketConnected(socketId)\<close>.\<close>

definition live :: "gateway \<Rightarrow> string \<Rightarrow> bool" where
  "live g socketId = (truthy socketId \<and> isSocketConnected g socketId)"

subsection \<open>Call control\<close>

definition handleAcceptCall :: "gateway \<Rightarrow> socket \<Rightarrow> string \<Rightarrow> gateway \<times> emission list" where
  "handleAcceptCall g client callId =
     (case map_of (activeCalls g) callId of
        None \<Rightarrow> (g, [(to_client (client_id client), call_failed (Message ''Call not found''))])
      | Some call \<Rightarrow>
         (case call_update (prisma g) callId (\<lambda>r. r\<lparr>status := accepted\<rparr>) of
            None \<Rightarrow>
              (g, [(to_client (client_id client), call_failed (Message ''Failed to accept call''))])
          | Some db \<Rightarrow>
              (g\<lparr>prisma := db,
                 activeCalls :=
                   AList.update callId
                     (call\<lparr>receiverSocketId := client_id client, status := accepted\<rparr>)
                     (activeCalls g)\<rparr>,
               (if live g (callerSocketId call)
                then [(to_room (callerSocketId call), call_accepted callId)] else [])
               @ [(to_client (client_id client), call_accepted callId)])))"

definition handleRejectCall ::
  "gateway \<Rightarrow> socket \<Rightarrow> string \<Rightarrow> int \<Rightarrow> gateway \<times> emission list" where
  "handleRejectCall g client callId now =
     (case map_of (activeCalls g) callId of
        None \<Rightarrow> (g, [])
      | Some call \<Rightarrow>
         (case call_update (prisma g) callId (\<lambda>r. r\<lparr>status := rejected, endedAt := Some now\<rparr>) of
            None \<Rightarrow>
              (g, [(to_client (client_id client), call_failed (Message ''Failed to reject call''))])
          | Some db \<Rightarrow>
              (g\<lparr>prisma := db, activeCalls := AList.delete callId (activeCalls g)\<rparr>,
               (if live g (callerSocketId call)
                then [(to_room (callerSocketId call), call_rejected callId)] else []))))"

text \<open>
  \<open>Math.floor((Date.now() - createdAt) / 1000)\<close>: on integers \<open>div\<close> rounds towards
  minus infinity, as \<open>Math.floor\<close> does. The handler reads the clock once more for
  \<open>endedAt\<close>, in the same synchronous stretch; both readings are \<open>now\<close> here.
\<close>

definition call_duration :: "int \<Rightarrow> call \<Rightarrow> int" where
  "call_duration now call = (now - createdAt call) div 1000"

definition handleEndCall ::
  "gateway \<Rightarrow> socket \<Rightarrow> string \<Rightarrow> int \<Rightarrow> gateway \<times> emission list" where
  "handleEndCall g client callId now =
     (case map_of (activeCalls g) callId of
        None \<Rightarrow> (g, [])
      | Some call \<Rightarrow>
         (case call_update (prisma g) callId
                 (\<lambda>r. r\<lparr>status := ended, endedAt := Some now,
                        duration := Some (call_duration now call)\<rparr>) of
            None \<Rightarrow>
              (g, [(to_client (client_id client), call_failed (Message ''Failed to end call''))])
          | Some db \<Rightarrow>
              (g\<lparr>prisma := db, activeCalls := AList.delete callId (activeCalls g)\<rparr>,
               map (\<lambda>socketId. (to_room socketId, call_ended callId))
                 (filter (live g) [callerSocketId call, receiverSocketId call]))))"

text \<open>
  Modelled from the spec: the Durable Store creates message records (\<open>isRead\<close>
  false, creation time set by the store, sender and receiver referencing \<open>users\<close>),
  queries the conversation of two users in creation order, marks the unread messages of a
  sender to a receiver as read (returning their number), and counts a user's unread messages
  per sender. Each returns the messages with the included sender and receiver rows.
\<close>

definition include_users :: "prisma \<Rightarrow> message \<Rightarrow> message_full option" where
  "include_users db m =
     (case find_user db (senderId m) of
        None \<Rightarrow> None
      | Some s \<Rightarrow>
         (case find_user db (receiverId_m m) of
            None \<Rightarrow> None
          | Some r \<Rightarrow>
              Some \<lparr>msg_id = msg_id m, content = content m, msg_type = msg_type m,
                    fileName = fileName m, fileSize = fileSize m, fileType = fileType m,
                    senderId = senderId m, receiverId_m = receiverId_m m, isRead = isRead m,
                    createdAt_m = createdAt_m m, sender = s, receiver_m = r\<rparr>))"

definition message_create ::
  "prisma \<Rightarrow> string \<Rightarrow> int \<Rightarrow> string \<Rightarrow> message_type \<Rightarrow> string option \<Rightarrow> int option
     \<Rightarrow> string option \<Rightarrow> string \<Rightarrow> string \<Rightarrow> (prisma \<times> message_full) option" where
  "message_create db newId now c ty fName fSize fType s r =
     (if \<not> up db \<or> newId \<in> set (map msg_id (messages db)) then None
      else
        (let m = \<lparr>msg_id = newId, content = c, msg_type = ty, fileName = fName,
                   fileSize = fSize, fileType = fType, senderId = s, receiverId_m = r,
                   isRead = False, createdAt_m = now\<rparr>
         in case include_users db m of
              None \<Rightarrow> None
            | Some full \<Rightarrow> Some (db\<lparr>messages := messages db @ [m]\<rparr>, full)))"

definition message_findMany :: "prisma \<Rightarrow> string \<Rightarrow> string \<Rightarrow> message_full list option" where
  "message_findMany db currentUserId otherUserId =
     (if \<not> up db then None
      else Some (List.map_filter (include_users db)
        (sort_key createdAt_m
          (filter (\<lambda>m. (senderId m = currentUserId \<and> receiverId_m m = otherUserId)
                     \<or> (senderId m = otherUserId \<and> receiverId_m m = currentUserId))
             (messages db)))))"

definition message_updateMany :: "prisma \<Rightarrow> string \<Rightarrow> string \<Rightarrow> (prisma \<times> nat) option" where
  "message_updateMany db s r =
     (if \<not> up db then None
      else
        (let hit = (\<lambda>m. senderId m = s \<and> receiverId_m m = r \<and> \<not> isRead m)
         in Some (db\<lparr>messages := map (\<lambda>m. if hit m then m\<lparr>isRead := True\<rparr> else m) (messages db)\<rparr>,
                  length (filter hit (messages db)))))"

definition unread_by_sender :: "message list \<Rightarrow> string \<Rightarrow> (string \<times> nat) list" where
  "unread_by_sender ms userId =
     (let unread = filter (\<lambda>m. receiverId_m m = userId \<and> \<not> isRead m) ms
      in map (\<lambda>s. (s, length (filter (\<lambda>m. senderId m = s) unread)))
           (remdups (map senderId unread)))"

definition message_groupBy :: "prisma \<Rightarrow> string \<Rightarrow> (string \<times> nat) list option" where
  "message_groupBy db userId =
     (if \<not> up db then None else Some (unread_by_sender (messages db) userId))"

subsection \<open>Presence\<close>

text \<open>
  \<open>const s = this.connectedUsers.get(userId); if (s) ...\<close>: the socket bound to a
  user, where the binding exists and is truthy.
\<close>

definition connectedSocket :: "gateway \<Rightarrow> string \<Rightarrow> string option" where
  "connectedSocket g userId =
     (case map_of (connectedUsers g) userId of
        None \<Rightarrow> None
      | Some s \<Rightarrow> if truthy s then Some s else None)"

definition sendUnreadCounts :: "gateway \<Rightarrow> string \<Rightarrow> emission list" where
  "sendUnreadCounts g userId =
     (case message_groupBy (prisma g) userId of
        None \<Rightarrow> []
      | Some counts \<Rightarrow>
         (case connectedSocket g userId of
            None \<Rightarrow> []
          | Some socketId \<Rightarrow> [(to_room socketId, unread_counts counts)]))"

text \<open>
  The loop mutates the call object of every entry in place (and stores it again under its
  own key), so it is a map over the entries.
\<close>

definition updateUserSocketInActiveCalls :: "gateway \<Rightarrow> string \<Rightarrow> string \<Rightarrow> gateway" where
  "updateUserSocketInActiveCalls g userId newSocketId =
     g\<lparr>activeCalls :=
         map (\<lambda>(callId, call).
                (callId,
                 if callerId call = userId then call\<lparr>callerSocketId := newSocketId\<rparr>
                 else if receiverId call = userId then call\<lparr>receiverSocketId := newSocketId\<rparr>
                 else call))
           (activeCalls g)\<rparr>"

text \<open>
  An attach whose credential fails ends in \<open>client.disconnect()\<close>, which takes the
  socket out of the transport's set.
\<close>

definition handleConnection :: "gateway \<Rightarrow> socket \<Rightarrow> gateway \<times> emission list" where
  "handleConnection g client =
     (case verify g client of
        None \<Rightarrow> (g\<lparr>sockets := removeAll (client_id client) (sockets g)\<rparr>, [])
      | Some userId \<Rightarrow>
         (let g1 = g\<lparr>connectedUsers := AList.update userId (client_id client) (connectedUsers g)\<rparr>;
              g2 = updateUserSocketInActiveCalls g1 userId (client_id client)
          in (g2, sendUnreadCounts g2 userId)))"

text \<open>
  \<open>handleDisconnect\<close> looks for the first user bound to the closed socket and schedules
  the delayed check for that user; it changes nothing else.
\<close>

definition handleDisconnect :: "gateway \<Rightarrow> socket \<Rightarrow> gateway" where
  "handleDisconnect g client =
     (case find (\<lambda>(userId, socketId). socketId = client_id client) (connectedUsers g) of
        None \<Rightarrow> g
      | Some (userId, socketId) \<Rightarrow> g\<lparr>timers := timers g @ [(userId, client_id client)]\<rparr>)"

text \<open>
  \<open>handleUserDisconnectFromCalls\<close>: the loop over the entries of \<open>activeCalls\<close>. It
  deletes only the entry it is visiting, so it visits the entries the map had at the start.
  A failed update is caught and the loop goes on.
\<close>

fun disconnectCalls ::
  "(string \<times> call) list \<Rightarrow> gateway \<Rightarrow> string \<Rightarrow> int \<Rightarrow> gateway \<times> emission list" where
  "disconnectCalls [] g userId now = (g, [])"
| "disconnectCalls ((callId, call) # rest) g userId now =
     (if callerId call = userId \<or> receiverId call = userId then
        (let db = (case call_update (prisma g) callId
                          (\<lambda>r. r\<lparr>status := ended, endedAt := Some now\<rparr>) of
                     None \<Rightarrow> prisma g
                   | Some db' \<Rightarrow> db');
             otherSocketId = (if callerId call = userId then receiverSocketId call
                              else callerSocketId call);
             out = (if live g otherSocketId then [(to_room otherSocketId, call_ended callId)]
                    else []);
             later = disconnectCalls rest
                       (g\<lparr>prisma := db, activeCalls := AList.delete callId (activeCalls g)\<rparr>)
                       userId now
         in (fst later, out @ snd later))
      else disconnectCalls rest g userId now)"

definition handleUserDisconnectFromCalls ::
  "gateway \<Rightarrow> string \<Rightarrow> int \<Rightarrow> gateway \<times> emission list" where
  "handleUserDisconnectFromCalls g userId now = disconnectCalls (activeCalls g) g userId now"

text \<open>The callback that \<open>handleDisconnect\<close> schedules, for its user and socket.\<close>

definition disconnectTimeout ::
  "gateway \<Rightarrow> string \<Rightarrow> string \<Rightarrow> int \<Rightarrow> gateway \<times> emission list" where
  "disconnectTimeout g userId socketId now =
     (if map_of (connectedUsers g) userId = Some socketId then
        handleUserDisconnectFromCalls
          (g\<lparr>connectedUsers := AList.delete userId (connectedUsers g),
             userActiveChats := AList.delete userId (userActiveChats g)\<rparr>)
          userId now
      else (g, []))"

definition handleCheckUserOnline :: "gateway \<Rightarrow> socket \<Rightarrow> string \<Rightarrow> gateway \<times> emission list" where
  "handleCheckUserOnline g client userId =
     (g, [(to_client (client_id client),
           user_online_status userId (map_of (connectedUsers g) userId \<noteq> None))])"

subsection \<open>File-transfer signalling\<close>

definition handleFileWebRTCOffer ::
  "gateway \<Rightarrow> socket \<Rightarrow> string \<Rightarrow> string \<Rightarrow> gateway \<times> emission list" where
  "handleFileWebRTCOffer g client targetUserId offer =
     (case verify g client of
        None \<Rightarrow> (g, [])
      | Some sub \<Rightarrow>
         (case connectedSocket g targetUserId of
            None \<Rightarrow> (g, [])
          | Some targetSocketId \<Rightarrow>
              (g, [(to_room targetSocketId, file_webrtc_offer sub offer)])))"

definition handleFileWebRTCAnswer ::
  "gateway \<Rightarrow> socket \<Rightarrow> string \<Rightarrow> string \<Rightarrow> gateway \<times> emission list" where
  "handleFileWebRTCAnswer g client targetUserId answer =
     (case verify g client of
        None \<Rightarrow> (g, [])
      | Some sub \<Rightarrow>
         (case connectedSocket g targetUserId of
            None \<Rightarrow> (g, [])
          | Some targetSocketId \<Rightarrow>
              (g, [(to_room targetSocketId, file_webrtc_answer sub answer)])))"

definition handleFileWebRTCIceCandidate ::
  "gateway \<Rightarrow> socket \<Rightarrow> string \<Rightarrow> string \<Rightarrow> gateway \<times> emission list" where
  "handleFileWebRTCIceCandidate g client targetUserId candidate =
     (case verify g client of
        None \<Rightarrow> (g, [])
      | Some sub \<Rightarrow>
         (case connectedSocket g targetUserId of
            None \<Rightarrow> (g, [])
          | Some targetSocketId \<Rightarrow>
              (g, [(to_room targetSocketId, file_webrtc_ice_candidate sub candidate)])))"

subsection \<open>Messages\<close>

text \<open>
  The arguments \<open>d_receiverId\<close>, \<open>d_content\<close>, ... are the fields of the event's
  \<open>data\<close>; \<open>newId\<close> is the id the store gives the new record and \<open>now\<close> the time
  it stamps.
\<close>

definition handleFileMessage ::
  "gateway \<Rightarrow> socket \<Rightarrow> string \<Rightarrow> string \<Rightarrow> string \<Rightarrow> int \<Rightarrow> string \<Rightarrow> string \<Rightarrow> int
     \<Rightarrow> gateway \<times> emission list" where
  "handleFileMessage g client d_receiverId d_content d_fileName d_fileSize d_fileType newId now =
     (case verify g client of
        None \<Rightarrow> (g, [(to_client (client_id client), error_event ''Failed to send file message'')])
      | Some sub \<Rightarrow>
         (let receiverSocketId = connectedSocket g d_receiverId;
              isReceiverOnline = (receiverSocketId \<noteq> None)
          in case message_create (prisma g) newId now d_content file_message (Some d_fileName)
                    (Some d_fileSize) (Some d_fileType) sub d_receiverId of
               None \<Rightarrow>
                 (g, [(to_client (client_id client), error_event ''Failed to send file message'')])
             | Some (db, msg) \<Rightarrow>
                 (let g' = g\<lparr>prisma := db\<rparr> in
                  (g',
                   (case receiverSocketId of
                      None \<Rightarrow> []
                    | Some rs \<Rightarrow>
                        (to_room rs, receive_message msg (Some isReceiverOnline))
                          # sendUnreadCounts g' d_receiverId)
                   @ [(to_client (client_id client), message_sent msg (Some isReceiverOnline))]))))"

definition handleMessage ::
  "gateway \<Rightarrow> socket \<Rightarrow> string \<Rightarrow> string \<Rightarrow> string \<Rightarrow> int \<Rightarrow> gateway \<times> emission list" where
  "handleMessage g client d_receiverId d_content newId now =
     (case verify g client of
        None \<Rightarrow> (g, [(to_client (client_id client), error_event ''Failed to send message'')])
      | Some sub \<Rightarrow>
         (case message_create (prisma g) newId now d_content text_message None None None
                 sub d_receiverId of
            None \<Rightarrow> (g, [(to_client (client_id client), error_event ''Failed to send message'')])
          | Some (db, msg) \<Rightarrow>
              (let g' = g\<lparr>prisma := db\<rparr> in
               (g',
                (case connectedSocket g' d_receiverId of
                   None \<Rightarrow> []
                 | Some rs \<Rightarrow>
                     (to_room rs, receive_message msg None) # sendUnreadCounts g' d_receiverId)
                @ [(to_client (client_id client), message_sent msg None)]))))"

definition handleGetMessages :: "gateway \<Rightarrow> socket \<Rightarrow> string \<Rightarrow> gateway \<times> emission list" where
  "handleGetMessages g client otherUserId =
     (case verify g client of
        None \<Rightarrow> (g, [(to_client (client_id client), error_event ''Failed to get messages'')])
      | Some currentUserId \<Rightarrow>
         (case message_findMany (prisma g) currentUserId otherUserId of
            None \<Rightarrow> (g, [(to_client (client_id client), error_event ''Failed to get messages'')])
          | Some msgs \<Rightarrow> (g, [(to_client (client_id client), messages_history msgs)])))"

definition handleMarkMessagesRead ::
  "gateway \<Rightarrow> socket \<Rightarrow> string \<Rightarrow> gateway \<times> emission list" where
  "handleMarkMessagesRead g client d_senderId =
     (case verify g client of
        None \<Rightarrow>
          (g, [(to_client (client_id client), error_event ''Failed to mark messages as read'')])
      | Some currentUserId \<Rightarrow>
         (case message_updateMany (prisma g) d_senderId currentUserId of
            None \<Rightarrow>
              (g, [(to_client (client_id client), error_event ''Failed to mark messages as read'')])
          | Some (db, n) \<Rightarrow>
              (let g' = g\<lparr>prisma := db\<rparr> in
               (g',
                sendUnreadCounts g' currentUserId
                @ (case connectedSocket g' d_senderId of
                     None \<Rightarrow> []
                   | Some senderSocketId \<Rightarrow>
                       [(to_room senderSocketId, messages_marked_read d_senderId currentUserId)])
                @ [(to_client (client_id client),
                    messages_marked_read d_senderId currentUserId)]))))"

text \<open>
  \<open>data.receiverId\<close> is a string or null; the branch is taken when it is truthy. The
  active chat is set before the store is asked, so it stays set when the store fails.
\<close>

definition handleSetActiveChat ::
  "gateway \<Rightarrow> socket \<Rightarrow> string option \<Rightarrow> gateway \<times> emission list" where
  "handleSetActiveChat g client d_receiverId =
     (case verify g client of
        None \<Rightarrow> (g, [(to_client (client_id client), error_event ''Failed to set active chat'')])
      | Some currentUserId \<Rightarrow>
         (case (case d_receiverId of None \<Rightarrow> None | Some r \<Rightarrow> if truthy r then Some r else None) of
            None \<Rightarrow>
              (g\<lparr>userActiveChats := AList.delete currentUserId (userActiveChats g)\<rparr>, [])
          | Some r \<Rightarrow>
              (let g1 = g\<lparr>userActiveChats := AList.update currentUserId r (userActiveChats g)\<rparr>
               in case message_updateMany (prisma g1) r currentUserId of
                    None \<Rightarrow>
                      (g1, [(to_client (client_id client),
                             error_event ''Failed to set active chat'')])
                  | Some (db, n) \<Rightarrow>
                      (let g2 = g1\<lparr>prisma := db\<rparr> in
                       (g2,
                        sendUnreadCounts g2 currentUserId
                        @ (if n > 0 then
                             (case connectedSocket g2 r of
                                None \<Rightarrow> []
                              | Some senderSocketId \<Rightarrow>
                                  [(to_room senderSocketId, messages_marked_read r currentUserId)])
                           else []))))))"

definition handleGetUnreadCounts :: "gateway \<Rightarrow> socket \<Rightarrow> gateway \<times> emission list" where
  "handleGetUnreadCounts g client =
     (case verify g client of
        None \<Rightarrow> (g, [(to_client (client_id client), error_event ''Failed to get unread counts'')])
      | Some currentUserId \<Rightarrow> (g, sendUnreadCounts g currentUserId))"

subsection \<open>Starting a call and relaying its signalling\<close>

definition handleInitiateCall ::
  "gateway \<Rightarrow> socket \<Rightarrow> string \<Rightarrow> call_type \<Rightarrow> string \<Rightarrow> int \<Rightarrow> gateway \<times> emission list" where
  "handleInitiateCall g client d_receiverId d_type newId now =
     (case verify g client of
        None \<Rightarrow>
          (g, [(to_client (client_id client), call_failed (Message ''Failed to initiate call''))])
      | Some sub \<Rightarrow>
         (case connectedSocket g d_receiverId of
            None \<Rightarrow> (g, [(to_client (client_id client), call_failed (Reason ''User is offline''))])
          | Some rs \<Rightarrow>
             (case call_create (prisma g) newId now d_type initiated sub d_receiverId of
                None \<Rightarrow>
                  (g, [(to_client (client_id client),
                        call_failed (Message ''Failed to initiate call''))])
              | Some (db, row, c, r) \<Rightarrow>
                  (g\<lparr>prisma := db,
                     activeCalls :=
                       AList.update (call_id row)
                         \<lparr>call_id = call_id row, call_type = call_type row, status = status row,
                          duration = duration row, createdAt = createdAt row,
                          endedAt = endedAt row, callerId = callerId row,
                          receiverId = receiverId row, caller = c, receiver = r,
                          callerSocketId = client_id client, receiverSocketId = rs\<rparr>
                         (activeCalls g)\<rparr>,
                   [(to_client (client_id client), call_initiated (call_id row)),
                    (to_room rs, incoming_call (call_id row) c d_type)]))))"

definition handleWebRTCOffer ::
  "gateway \<Rightarrow> socket \<Rightarrow> string \<Rightarrow> string \<Rightarrow> gateway \<times> emission list" where
  "handleWebRTCOffer g client callId offer =
     (case map_of (activeCalls g) callId of
        None \<Rightarrow> (g, [(to_client (client_id client), call_failed (Reason ''Call not found''))])
      | Some call \<Rightarrow>
         (if \<not> live g (receiverSocketId call) then
            (g, [(to_client (client_id client), call_failed (Reason ''Receiver disconnected''))])
          else (g, [(to_room (receiverSocketId call), webrtc_offer callId offer)])))"

definition handleWebRTCAnswer ::
  "gateway \<Rightarrow> socket \<Rightarrow> string \<Rightarrow> string \<Rightarrow> gateway \<times> emission list" where
  "handleWebRTCAnswer g client callId answer =
     (case map_of (activeCalls g) callId of
        None \<Rightarrow> (g, [(to_client (client_id client), call_failed (Reason ''Call not found''))])
      | Some call \<Rightarrow>
         (if \<not> live g (callerSocketId call) then
            (g, [(to_client (client_id client), call_failed (Reason ''Caller disconnected''))])
          else (g, [(to_room (callerSocketId call), webrtc_answer callId answer)])))"

definition handleWebRTCIceCandidate ::
  "gateway \<Rightarrow> socket \<Rightarrow> string \<Rightarrow> string \<Rightarrow> gateway \<times> emission list" where
  "handleWebRTCIceCandidate g client callId candidate =
     (case map_of (activeCalls g) callId of
        None \<Rightarrow> (g, [])
      | Some call \<Rightarrow>
         (let targetSocketId = (if client_id client = callerSocketId call
                                then receiverSocketId call else callerSocketId call)
          in if live g targetSocketId
             then (g, [(to_room targetSocketId, webrtc_ice_candidate callId candidate)])
             else (g, [])))"

section \<open>The gateway as a transition system\<close>

text \<open>
  What reaches the gateway: the transport opening and closing a socket, the oldest pending
  timer running out (all timers have the same delay), the inbound events, and the store
  going down or coming back.
\<close>

datatype inbound =
    attach socket
  | detach socket
  | timer_fires
  | store_up bool
  | on_file_webrtc_offer socket string string
  | on_file_webrtc_answer socket string string
  | on_file_webrtc_ice_candidate socket string string
  | on_send_file_message socket string string string int string
  | on_check_user_online socket string
  | on_initiate_call socket string call_type
  | on_accept_call socket string
  | on_reject_call socket string
  | on_end_call socket string
  | on_webrtc_offer socket string string
  | on_webrtc_answer socket string string
  | on_webrtc_ice_candidate socket string string
  | on_send_message socket string string
  | on_get_messages socket string
  | on_mark_messages_read socket string
  | on_set_active_chat socket "string option"
  | on_get_unread_counts socket

text \<open>
  One step, at time \<open>now\<close>, where the store would give a record created in this step
  the id \<open>newId\<close>. The transport puts a socket into its set before \<open>handleConnection\<close>
  runs and has taken it out when \<open>handleDisconnect\<close> runs.
\<close>

fun step :: "int \<Rightarrow> string \<Rightarrow> gateway \<Rightarrow> inbound \<Rightarrow> gateway \<times> emission list" where
  "step now newId g (attach client) =
     handleConnection (g\<lparr>sockets := List.insert (client_id client) (sockets g)\<rparr>) client"
| "step now newId g (detach client) =
     (handleDisconnect (g\<lparr>sockets := removeAll (client_id client) (sockets g)\<rparr>) client, [])"
| "step now newId g timer_fires =
     (case timers g of
        [] \<Rightarrow> (g, [])
      | (userId, socketId) # ts \<Rightarrow> disconnectTimeout (g\<lparr>timers := ts\<rparr>) userId socketId now)"
| "step now newId g (store_up b) = (g\<lparr>prisma := (prisma g)\<lparr>up := b\<rparr>\<rparr>, [])"
| "step now newId g (on_file_webrtc_offer client t p) = handleFileWebRTCOffer g client t p"
| "step now newId g (on_file_webrtc_answer client t p) = handleFileWebRTCAnswer g client t p"
| "step now newId g (on_file_webrtc_ice_candidate client t p) =
     handleFileWebRTCIceCandidate g client t p"
| "step now newId g (on_send_file_message client r c fName fSize fType) =
     handleFileMessage g client r c fName fSize fType newId now"
| "step now newId g (on_check_user_online client u) = handleCheckUserOnline g client u"
| "step now newId g (on_initiate_call client r ty) = handleInitiateCall g client r ty newId now"
| "step now newId g (on_accept_call client callId) = handleAcceptCall g client callId"
| "step now newId g (on_reject_call client callId) = handleRejectCall g client callId now"
| "step now newId g (on_end_call client callId) = handleEndCall g client callId now"
| "step now newId g (on_webrtc_offer client callId p) = handleWebRTCOffer g client callId p"
| "step now newId g (on_webrtc_answer client callId p) = handleWebRTCAnswer g client callId p"
| "step now newId g (on_webrtc_ice_candidate client callId p) =
     handleWebRTCIceCandidate g client callId p"
| "step now newId g (on_send_message client r c) = handleMessage g client r c newId now"
| "step now newId g (on_get_messages client u) = handleGetMessages g client u"
| "step now newId g (on_mark_messages_read client s) = handleMarkMessagesRead g client s"
| "step now newId g (on_set_active_chat client r) = handleSetActiveChat g client r"
| "step now newId g (on_get_unread_counts client) = handleGetUnreadCounts g client"

text \<open>A run: the steps of a list of inputs, each with its time and the store's next id.\<close>

fun run :: "gateway \<Rightarrow> (int \<times> string \<times> inbound) list \<Rightarrow> gateway \<times> emission list" where
  "run g [] = (g, [])"
| "run g ((now, newId, ev) # evs) =
     (let first = step now newId g ev; later = run (fst first) evs
      in (fst later, snd first @ snd later))"

section \<open>A scenario\<close>

text \<open>
  Two users, Alice (\<open>A\<close>) and Bob (\<open>B\<close>), with their tokens \<open>tA\<close> and \<open>tB\<close>.
  Alice attaches with socket \<open>s1\<close>, Bob with \<open>s2\<close>; at time 1000 Alice starts a video
  call to Bob, which the store records as \<open>c1\<close>; then Bob accepts.
\<close>

definition alice :: user where
  "alice = \<lparr>user_id = ''A'', username = ''alice'', email = ''a@x'', avatar = None\<rparr>"

definition bob :: user where
  "bob = \<lparr>user_id = ''B'', username = ''bob'', email = ''b@x'', avatar = None\<rparr>"

definition jwt0 :: "string \<Rightarrow> string option" where
  "jwt0 t = (if t = ''tA'' then Some ''A'' else if t = ''tB'' then Some ''B'' else None)"

definition g0 :: gateway where
  "g0 = \<lparr>sockets = [], connectedUsers = [], userActiveChats = [], activeCalls = [],
          jwtService = jwt0,
          prisma = \<lparr>up = True, users = [alice, bob], calls = [], messages = []\<rparr>,
          timers = []\<rparr>"

definition sA :: socket where
  "sA = \<lparr>client_id = ''s1'', token = Some ''tA''\<rparr>"

definition sB :: socket where
  "sB = \<lparr>client_id = ''s2'', token = Some ''tB''\<rparr>"

definition g_online :: gateway where
  "g_online = fst (run g0 [(0, [], attach sA), (0, [], attach sB)])"

definition g_ringing :: gateway where
  "g_ringing = fst (step 1000 ''c1'' g_online (on_initiate_call sA ''B'' video))"

definition g_accepted :: gateway where
  "g_accepted = fst (step 2000 [] g_ringing (on_accept_call sB ''c1''))"

section \<open>Call control for one call\<close>

text \<open>
  Is the input \<open>accept_call\<close>, \<open>reject_call\<close> or \<open>end_call\<close> for the given call id?
\<close>

fun call_control_for :: "string \<Rightarrow> inbound \<Rightarrow> bool" where
  "call_control_for callId (on_accept_call client k) = (k = callId)"
| "call_control_for callId (on_reject_call client k) = (k = callId)"
| "call_control_for callId (on_end_call client k) = (k = callId)"
| "call_control_for callId other = False"

text \<open>The store is up and holds a record of the call.\<close>

definition store_has_call :: "gateway \<Rightarrow> string \<Rightarrow> bool" where
  "store_has_call g callId = (up (prisma g) \<and> callId \<in> set (map call_id (calls (prisma g))))"

text \<open>The ringing state after every token has expired.\<close>

definition g_expired :: gateway where
  "g_expired = g_ringing\<lparr>jwtService := \<lambda>t. None\<rparr>"

text \<open>The message \<open>hi\<close> from Alice to Bob, as the store returns it.\<close>

definition msg_hi :: message_full where
  "msg_hi = \<lparr>msg_id = ''m1'', content = ''hi'', msg_type = text_message, fileName = None,
             fileSize = None, fileType = None, senderId = ''A'', receiverId_m = ''B'',
             isRead = False, createdAt_m = 5, sender = alice, receiver_m = bob\<rparr>"

text \<open>The file message \<open>doc\<close> from Alice to Bob, as the store returns it.\<close>

definition msg_doc :: message_full where
  "msg_doc = \<lparr>msg_id = ''m1'', content = ''doc'', msg_type = file_message,
              fileName = Some ''a.txt'', fileSize = Some 12, fileType = Some ''text/plain'',
              senderId = ''A'', receiverId_m = ''B'', isRead = False, createdAt_m = 5,
              sender = alice, receiver_m = bob\<rparr>"

section \<open>The call state machine\<close>

text \<open>
  The moves of a call's durable status that the gateway makes: from \<open>initiated\<close> to any
  of the other three, from \<open>accepted\<close> to \<open>rejected\<close> or \<open>ended\<close>, and no move out
  of \<open>rejected\<close> or \<open>ended\<close>.
\<close>

definition status_move :: "call_status \<Rightarrow> call_status \<Rightarrow> bool" where
  "status_move s s' =
     (s' = s \<or> (s = initiated \<and> s' \<in> {accepted, rejected, ended})
             \<or> (s = accepted \<and> s' \<in> {rejected, ended}))"

text \<open>Every call the store holds before is held after, its status moved as above.\<close>

definition statuses_move :: "gateway \<Rightarrow> gateway \<Rightarrow> bool" where
  "statuses_move g g' =
     (\<forall>cid s. call_status_of (prisma g) cid = Some s \<longrightarrow>
        (\<exists>s'. call_status_of (prisma g') cid = Some s' \<and> status_move s s'))"

text \<open>
  The Call Table is a \<open>Map\<close>, so its keys are distinct; and every call in it has a
  record in the store that is \<open>initiated\<close> or \<open>accepted\<close>.
\<close>

definition call_table_ok :: "gateway \<Rightarrow> bool" where
  "call_table_ok g =
     (distinct (map fst (activeCalls g)) \<and>
      (\<forall>k \<in> set (map fst (activeCalls g)).
         call_status_of (prisma g) k = Some initiated \<or>
         call_status_of (prisma g) k = Some accepted))"

section \<open>The calls of a user\<close>

text \<open>
  The tests of \<open>handleUserDisconnectFromCalls\<close>: the call involves the user, and the
  recorded session of the other participant.
\<close>

definition involves :: "string \<Rightarrow> call \<Rightarrow> bool" where
  "involves userId call = (callerId call = userId \<or> receiverId call = userId)"

definition counterparty :: "string \<Rightarrow> call \<Rightarrow> string" where
  "counterparty userId call =
     (if callerId call = userId then receiverSocketId call else callerSocketId call)"

text \<open>
  Alice's second socket, \<open>s3\<close>, with the same token; and the run in which Alice calls
  Alice's own id, socket \<open>s1\<close> closes, and Alice reattaches with \<open>s3\<close> before the
  timer runs out.
\<close>

definition sA2 :: socket where
  "sA2 = \<lparr>client_id = ''s3'', token = Some ''tA''\<rparr>"

definition g_self_call :: gateway where
  "g_self_call =
     fst (run g_online [(1000, ''c7'', on_initiate_call sA ''A'' audio),
                        (2000, [], detach sA),
                        (2500, [], attach sA2)])"


section \<open>The scenario's states\<close>

lemmas scenario_defs =
  g0_def sA_def sB_def jwt0_def alice_def bob_def

lemmas connection_defs =
  handleConnection_def verify_def updateUserSocketInActiveCalls_def sendUnreadCounts_def
  message_groupBy_def unread_by_sender_def connectedSocket_def truthy_def

lemma g_online_eq:
  "g_online =
     \<lparr>sockets = [''s2'', ''s1''], connectedUsers = [(''A'', ''s1''), (''B'', ''s2'')],
      userActiveChats = [], activeCalls = [], jwtService = jwt0,
      prisma = \<lparr>up = True, users = [alice, bob], calls = [], messages = []\<rparr>,
      timers = []\<rparr>"
  by (simp add: g_online_def scenario_defs connection_defs)

lemma g_ringing_eq:
  "g_ringing =
     \<lparr>sockets = [''s2'', ''s1''], connectedUsers = [(''A'', ''s1''), (''B'', ''s2'')],
      userActiveChats = [],
      activeCalls =
        [(''c1'',
          \<lparr>call_id = ''c1'', call_type = video, status = initiated, duration = None,
           createdAt = 1000, endedAt = None, callerId = ''A'', receiverId = ''B'',
           caller = (''A'', ''alice'', None), receiver = (''B'', ''bob'', None),
           callerSocketId = ''s1'', receiverSocketId = ''s2''\<rparr>)],
      jwtService = jwt0,
      prisma =
        \<lparr>up = True, users = [alice, bob],
         calls = [\<lparr>call_id = ''c1'', call_type = video, status = initiated, duration = None,
                   createdAt = 1000, endedAt = None, callerId = ''A'', receiverId = ''B''\<rparr>],
         messages = []\<rparr>,
      timers = []\<rparr>"
  by (simp add: g_ringing_def g_online_eq handleInitiateCall_def verify_def connectedSocket_def
      truthy_def call_create_def find_user_def profile_of_def sA_def jwt0_def alice_def bob_def Let_def)

lemma g_accepted_eq:
  "g_accepted =
     \<lparr>sockets = [''s2'', ''s1''], connectedUsers = [(''A'', ''s1''), (''B'', ''s2'')],
      userActiveChats = [],
      activeCalls =
        [(''c1'',
          \<lparr>call_id = ''c1'', call_type = video, status = accepted, duration = None,
           createdAt = 1000, endedAt = None, callerId = ''A'', receiverId = ''B'',
           caller = (''A'', ''alice'', None), receiver = (''B'', ''bob'', None),
           callerSocketId = ''s1'', receiverSocketId = ''s2''\<rparr>)],
      jwtService = jwt0,
      prisma =
        \<lparr>up = True, users = [alice, bob],
         calls = [\<lparr>call_id = ''c1'', call_type = video, status = accepted, duration = None,
                   createdAt = 1000, endedAt = None, callerId = ''A'', receiverId = ''B''\<rparr>],
         messages = []\<rparr>,
      timers = []\<rparr>"
  by (simp add: g_accepted_def g_ringing_eq handleAcceptCall_def call_update_def sB_def)

section \<open>The store's call records\<close>

lemma find_map_update:
  assumes "\<And>r. call_id (f r) = call_id r"
  shows "find (\<lambda>r. call_id r = k) (map (\<lambda>r. if call_id r = cid then f r else r) rows) =
         (if k = cid then map_option f (find (\<lambda>r. call_id r = k) rows)
          else find (\<lambda>r. call_id r = k) rows)"
  using assms by (induction rows) auto

lemma call_update_Some:
  "call_update db cid f = Some db' \<longleftrightarrow>
     up db \<and> cid \<in> set (map call_id (calls db)) \<and>
     db' = db\<lparr>calls := map (\<lambda>r. if call_id r = cid then f r else r) (calls db)\<rparr>"
  by (auto simp: call_update_def)

lemma call_row_of_update:
  assumes "call_update db cid f = Some db'" and "\<And>r. call_id (f r) = call_id r"
  shows "call_row_of db' k =
         (if k = cid then map_option f (call_row_of db cid) else call_row_of db k)"
  using assms by (auto simp: call_update_Some call_row_of_def find_map_update)

lemma find_call_id_Some_iff:
  "(\<exists>row. find (\<lambda>r. call_id r = cid) rows = Some row) \<longleftrightarrow> cid \<in> call_id ` set rows"
  by (induction rows) auto

lemma call_row_of_Some_iff:
  "(\<exists>row. call_row_of db cid = Some row) \<longleftrightarrow> cid \<in> set (map call_id (calls db))"
  by (simp add: call_row_of_def find_call_id_Some_iff)

lemma call_status_of_row: "call_status_of db cid = map_option status (call_row_of db cid)"
  by (simp add: call_status_of_def call_row_of_def)

section \<open>Call control on a call that is not in the Call Table\<close>

lemma accept_absent:
  "map_of (activeCalls g) callId = None \<Longrightarrow>
   handleAcceptCall g client callId =
     (g, [(to_client (client_id client), call_failed (Message ''Call not found''))])"
  by (simp add: handleAcceptCall_def)

lemma reject_absent:
  "map_of (activeCalls g) callId = None \<Longrightarrow> handleRejectCall g client callId now = (g, [])"
  by (simp add: handleRejectCall_def)

lemma end_absent:
  "map_of (activeCalls g) callId = None \<Longrightarrow> handleEndCall g client callId now = (g, [])"
  by (simp add: handleEndCall_def)

lemma end_call_removes:
  assumes "store_has_call g callId"
  shows "map_of (activeCalls (fst (handleEndCall g client callId now))) callId = None"
  using assms
  by (auto simp: handleEndCall_def store_has_call_def call_update_def AList.delete_conv'
      split: option.splits)

lemma control_step_absent:
  assumes "map_of (activeCalls g) callId = None" and "call_control_for callId ev"
  shows "fst (step now newId g ev) = g"
    and "\<forall>e \<in> set (snd (step now newId g ev)). \<exists>d. e = (d, call_failed (Message ''Call not found''))"
  using assms by (cases ev; simp add: accept_absent reject_absent end_absent)+

lemma control_run_absent:
  assumes "map_of (activeCalls g) callId = None"
      and "\<forall>x \<in> set evs. call_control_for callId (snd (snd x))"
  shows "fst (run g evs) = g \<and>
         (\<forall>e \<in> set (snd (run g evs)). \<exists>d. e = (d, call_failed (Message ''Call not found'')))"
  using assms
proof (induction evs)
  case Nil
  then show ?case by simp
next
  case (Cons x evs)
  obtain now newId ev where x: "x = (now, newId, ev)" by (cases x) auto
  from Cons.prems x have ctl: "call_control_for callId ev" by simp
  have same: "fst (step now newId g ev) = g"
    using control_step_absent(1) [OF Cons.prems(1) ctl] .
  have out: "\<forall>e \<in> set (snd (step now newId g ev)). \<exists>d. e = (d, call_failed (Message ''Call not found''))"
    using control_step_absent(2) [OF Cons.prems(1) ctl] .
  from Cons.IH Cons.prems
  have rest: "fst (run g evs) = g \<and>
      (\<forall>e \<in> set (snd (run g evs)). \<exists>d. e = (d, call_failed (Message ''Call not found'')))"
    by simp
  show ?case using same out rest by (auto simp: x Let_def)
qed

text \<open>
  C4. On a call id that is not in the Call Table, every sequence of \<open>accept_call\<close>,
  \<open>reject_call\<close> and \<open>end_call\<close> inputs for that id, from whatever sessions, leaves the
  whole gateway state as it was (so no entry is inserted again) and emits no
  \<open>call_ended\<close>. This holds in
  particular in the state an \<open>end_call\<close> leaves behind: once the store has recorded the
  end, the call is out of the Call Table.
\<close>

theorem ended_call_stays_ended:
  assumes "\<forall>x \<in> set evs. call_control_for callId (snd (snd x))"
  shows "(map_of (activeCalls g) callId = None \<longrightarrow>
            fst (run g evs) = g \<and>
            (\<forall>k. call_ended k \<notin> snd ` set (snd (run g evs)))) \<and>
         (store_has_call g callId \<longrightarrow>
            (let g1 = fst (handleEndCall g client callId now) in
               map_of (activeCalls g1) callId = None \<and>
               fst (run g1 evs) = g1 \<and>
               (\<forall>k. call_ended k \<notin> snd ` set (snd (run g1 evs)))))"
proof -
  have same: "fst (run h evs) = h" if "map_of (activeCalls h) callId = None" for h
    using control_run_absent [OF that assms] by simp
  have quiet: "\<forall>k. call_ended k \<notin> snd ` set (snd (run h evs))"
    if "map_of (activeCalls h) callId = None" for h
  proof (intro allI notI)
    fix k
    assume "call_ended k \<in> snd ` set (snd (run h evs))"
    then obtain e where e: "e \<in> set (snd (run h evs))" and k: "snd e = call_ended k"
      by force
    from control_run_absent [OF that assms] e
    obtain d where "e = (d, call_failed (Message ''Call not found''))"
      by blast
    with k show False by simp
  qed
  have first: "map_of (activeCalls g) callId = None \<longrightarrow>
            fst (run g evs) = g \<and> (\<forall>k. call_ended k \<notin> snd ` set (snd (run g evs)))"
    using same [of g] quiet [of g] by simp
  have second: "store_has_call g callId \<longrightarrow>
            (let g1 = fst (handleEndCall g client callId now) in
               map_of (activeCalls g1) callId = None \<and>
               fst (run g1 evs) = g1 \<and>
               (\<forall>k. call_ended k \<notin> snd ` set (snd (run g1 evs))))"
    unfolding Let_def
  proof
    assume has: "store_has_call g callId"
    have gone: "map_of (activeCalls (fst (handleEndCall g client callId now))) callId = None"
      using end_call_removes [OF has] .
    show "map_of (activeCalls (fst (handleEndCall g client callId now))) callId = None \<and>
          fst (run (fst (handleEndCall g client callId now)) evs) =
            fst (handleEndCall g client callId now) \<and>
          (\<forall>k. call_ended k \<notin> snd ` set (snd (run (fst (handleEndCall g client callId now)) evs)))"
      using gone same [OF gone] quiet [OF gone] by simp
  qed
  from first second show ?thesis ..
qed

theorem ended_call_stays_ended_witness:
  "store_has_call g_accepted ''c1'' \<and>
   (let g1 = fst (handleEndCall g_accepted sA ''c1'' 31000);
        evs = [(32000, [], on_accept_call sB ''c1''), (33000, [], on_reject_call sB ''c1''),
               (34000, [], on_end_call sA ''c1'')]
    in map_of (activeCalls g1) ''c1'' = None \<and> fst (run g1 evs) = g1 \<and>
       (\<forall>k. call_ended k \<notin> snd ` set (snd (run g1 evs))))"
proof -
  have has: "store_has_call g_accepted ''c1''"
    by (simp add: store_has_call_def g_accepted_eq)
  have ctl: "\<forall>x \<in> set [(32000::int, []::string, on_accept_call sB ''c1''),
                         (33000, [], on_reject_call sB ''c1''),
                         (34000, [], on_end_call sA ''c1'')].
               call_control_for ''c1'' (snd (snd x))"
    by simp
  show ?thesis
    using has ended_call_stays_ended [OF ctl, of g_accepted sA 31000]
    by (simp add: Let_def)
qed

text \<open>
  C10. For a call id that is not in the Call Table, \<open>reject_call\<close> and \<open>end_call\<close>
  return without emitting anything, while \<open>accept_call\<close> emits \<open>call_failed\<close> with the
  message \<open>Call not found\<close> to the acting session; none of the three changes the state.
\<close>

theorem absent_call_replies_differ:
  assumes "map_of (activeCalls g) callId = None"
  shows "handleRejectCall g client callId now = (g, []) \<and>
         handleEndCall g client callId now = (g, []) \<and>
         handleAcceptCall g client callId =
           (g, [(to_client (client_id client), call_failed (Message ''Call not found''))])"
  using assms by (simp add: accept_absent reject_absent end_absent)

theorem absent_call_replies_differ_witness:
  "map_of (activeCalls g_ringing) ''c2'' = None \<and>
   handleRejectCall g_ringing sB ''c2'' 5000 = (g_ringing, []) \<and>
   handleEndCall g_ringing sB ''c2'' 5000 = (g_ringing, []) \<and>
   handleAcceptCall g_ringing sB ''c2'' =
     (g_ringing, [(to_client ''s2'', call_failed (Message ''Call not found''))])"
proof -
  have absent: "map_of (activeCalls g_ringing) ''c2'' = None"
    by (simp add: g_ringing_eq)
  show ?thesis
    using absent absent_call_replies_differ [OF absent, of sB 5000]
    by (simp add: sB_def)
qed

section \<open>Accepting and ending a call\<close>

lemma store_has_call_update:
  assumes "store_has_call g callId"
  shows "call_update (prisma g) callId f =
           Some ((prisma g)\<lparr>calls :=
                   map (\<lambda>r. if call_id r = callId then f r else r) (calls (prisma g))\<rparr>)"
  using assms by (simp add: store_has_call_def call_update_def)

lemma store_has_call_row:
  assumes "store_has_call g callId"
  obtains row where "call_row_of (prisma g) callId = Some row"
  using assms call_row_of_Some_iff [of "prisma g" callId] by (auto simp: store_has_call_def)

text \<open>
  C3, as the code has it. \<open>accept_call\<close> for a call in the Call Table, from any session
  at all (the handler never looks at who is asking), once the store has taken the update:
  the durable status is \<open>accepted\<close>, the entry's status is \<open>accepted\<close> and its receiver
  session is the accepting session, every other entry and every other record is as before,
  the caller's recorded session is notified if it is live, and the accepting session is
  answered last.
\<close>

theorem accept_call_effect:
  assumes live_call: "map_of (activeCalls g) callId = Some call"
      and store: "store_has_call g callId"
  shows "(let g' = fst (handleAcceptCall g client callId);
               out = snd (handleAcceptCall g client callId)
          in call_status_of (prisma g') callId = Some accepted \<and>
             map_of (activeCalls g') callId =
               Some (call\<lparr>receiverSocketId := client_id client, status := accepted\<rparr>) \<and>
             (\<forall>k. k \<noteq> callId \<longrightarrow>
                  map_of (activeCalls g') k = map_of (activeCalls g) k \<and>
                  call_row_of (prisma g') k = call_row_of (prisma g) k) \<and>
             out = (if live g (callerSocketId call)
                    then [(to_room (callerSocketId call), call_accepted callId)] else [])
                   @ [(to_client (client_id client), call_accepted callId)])"
proof -
  let ?f = "\<lambda>r. r\<lparr>status := accepted\<rparr>"
  obtain db where db: "call_update (prisma g) callId ?f = Some db"
    using store_has_call_update [OF store] by simp
  obtain row where row: "call_row_of (prisma g) callId = Some row"
    using store by (rule store_has_call_row)
  have rows: "call_row_of db k =
      (if k = callId then map_option ?f (call_row_of (prisma g) callId)
       else call_row_of (prisma g) k)" for k
    using call_row_of_update [OF db] by simp
  have run: "handleAcceptCall g client callId =
      (g\<lparr>prisma := db,
         activeCalls := AList.update callId
           (call\<lparr>receiverSocketId := client_id client, status := accepted\<rparr>) (activeCalls g)\<rparr>,
       (if live g (callerSocketId call)
        then [(to_room (callerSocketId call), call_accepted callId)] else [])
       @ [(to_client (client_id client), call_accepted callId)])"
    using live_call db by (simp add: handleAcceptCall_def)
  show ?thesis
    using rows row
    by (simp add: run Let_def call_status_of_row AList.update_conv')
qed

theorem accept_call_effect_witness:
  "map_of (activeCalls g_ringing) ''c1'' \<noteq> None \<and> store_has_call g_ringing ''c1'' \<and>
   call_status_of (prisma (fst (handleAcceptCall g_ringing sB ''c1''))) ''c1'' = Some accepted \<and>
   map_option receiverSocketId
     (map_of (activeCalls (fst (handleAcceptCall g_ringing sB ''c1''))) ''c1'') = Some ''s2'' \<and>
   snd (handleAcceptCall g_ringing sB ''c1'') =
     [(to_room ''s1'', call_accepted ''c1''), (to_client ''s2'', call_accepted ''c1'')]"
proof -
  obtain call where c: "map_of (activeCalls g_ringing) ''c1'' = Some call"
    and s1: "callerSocketId call = ''s1''"
    by (simp add: g_ringing_eq)
  have has: "store_has_call g_ringing ''c1''"
    by (simp add: store_has_call_def g_ringing_eq)
  have lv: "live g_ringing ''s1''"
    by (simp add: live_def truthy_def isSocketConnected_def g_ringing_eq)
  show ?thesis
    using c has accept_call_effect [OF c has, of sB] s1 lv
    by (simp add: Let_def sB_def)
qed

text \<open>
  The claim's own reading fails: in the scenario Bob's current session is \<open>s2\<close>, and an
  \<open>accept_call\<close> from Alice's session \<open>s1\<close>, the caller's, puts the call into
  \<open>accepted\<close> all the same and records \<open>s1\<close> as the receiver's session.
\<close>

theorem accept_call_by_caller_counterexample:
  "map_of (connectedUsers g_ringing) ''B'' = Some ''s2'' \<and> client_id sA \<noteq> ''s2'' \<and>
   map_option status (map_of (activeCalls (fst (handleAcceptCall g_ringing sA ''c1''))) ''c1'')
     = Some accepted \<and>
   map_option receiverId (map_of (activeCalls (fst (handleAcceptCall g_ringing sA ''c1''))) ''c1'')
     = Some ''B'' \<and>
   map_option receiverSocketId
     (map_of (activeCalls (fst (handleAcceptCall g_ringing sA ''c1''))) ''c1'') = Some ''s1'' \<and>
   call_status_of (prisma (fst (handleAcceptCall g_ringing sA ''c1''))) ''c1'' = Some accepted"
  by (simp add: g_ringing_eq handleAcceptCall_def call_update_def sA_def call_status_of_def)

text \<open>
  C9. \<open>end_call\<close> for a call in the Call Table, once the store has taken the update: the
  call's record has status \<open>ended\<close>, the end time, and as duration the whole seconds
  from the entry's creation time to the end time, computed in this one place; its other
  columns and all other records are as before; the call is out of the Call Table and no
  other entry is touched; \<open>call_ended\<close> goes to the caller's and to the receiver's
  recorded session, each if it is live, and to nobody else.
\<close>

theorem end_call_effect:
  assumes live_call: "map_of (activeCalls g) callId = Some call"
      and store: "store_has_call g callId"
  shows "(let g' = fst (handleEndCall g client callId now);
               out = snd (handleEndCall g client callId now)
          in call_row_of (prisma g') callId =
               map_option (\<lambda>r. r\<lparr>status := ended, endedAt := Some now,
                                 duration := Some ((now - createdAt call) div 1000)\<rparr>)
                 (call_row_of (prisma g) callId) \<and>
             call_status_of (prisma g') callId = Some ended \<and>
             map_of (activeCalls g') callId = None \<and>
             (\<forall>k. k \<noteq> callId \<longrightarrow>
                  map_of (activeCalls g') k = map_of (activeCalls g) k \<and>
                  call_row_of (prisma g') k = call_row_of (prisma g) k) \<and>
             out = map (\<lambda>s. (to_room s, call_ended callId))
                     (filter (live g) [callerSocketId call, receiverSocketId call]))"
proof -
  let ?f = "\<lambda>r. r\<lparr>status := ended, endedAt := Some now,
                   duration := Some (call_duration now call)\<rparr>"
  obtain db where db: "call_update (prisma g) callId ?f = Some db"
    using store_has_call_update [OF store] by simp
  obtain row where row: "call_row_of (prisma g) callId = Some row"
    using store by (rule store_has_call_row)
  have rows: "call_row_of db k =
      (if k = callId then map_option ?f (call_row_of (prisma g) callId)
       else call_row_of (prisma g) k)" for k
    using call_row_of_update [OF db] by simp
  have run: "handleEndCall g client callId now =
      (g\<lparr>prisma := db, activeCalls := AList.delete callId (activeCalls g)\<rparr>,
       map (\<lambda>s. (to_room s, call_ended callId))
         (filter (live g) [callerSocketId call, receiverSocketId call]))"
    using live_call db by (simp add: handleEndCall_def)
  show ?thesis
    using rows row
    by (simp add: run Let_def call_status_of_row AList.delete_conv' call_duration_def)
qed

theorem end_call_effect_witness:
  "map_of (activeCalls g_accepted) ''c1'' \<noteq> None \<and> store_has_call g_accepted ''c1'' \<and>
   map_option (\<lambda>r. (status r, endedAt r, duration r))
     (call_row_of (prisma (fst (handleEndCall g_accepted sA ''c1'' 31999))) ''c1'')
     = Some (ended, Some 31999, Some 30) \<and>
   map_of (activeCalls (fst (handleEndCall g_accepted sA ''c1'' 31999))) ''c1'' = None \<and>
   snd (handleEndCall g_accepted sA ''c1'' 31999) =
     [(to_room ''s1'', call_ended ''c1''), (to_room ''s2'', call_ended ''c1'')]"
proof -
  obtain call where c: "map_of (activeCalls g_accepted) ''c1'' = Some call"
    and s: "callerSocketId call = ''s1''" "receiverSocketId call = ''s2''"
      "createdAt call = 1000"
    by (simp add: g_accepted_eq)
  have has: "store_has_call g_accepted ''c1''"
    by (simp add: store_has_call_def g_accepted_eq)
  have row: "call_row_of (prisma g_accepted) ''c1'' =
      Some \<lparr>call_id = ''c1'', call_type = video, status = accepted, duration = None,
            createdAt = 1000, endedAt = None, callerId = ''A'', receiverId = ''B''\<rparr>"
    by (simp add: call_row_of_def g_accepted_eq)
  have lv: "live g_accepted ''s1''" "live g_accepted ''s2''"
    by (simp_all add: live_def truthy_def isSocketConnected_def g_accepted_eq)
  show ?thesis
    using c has end_call_effect [OF c has, of sA 31999] s lv row
    by (simp add: Let_def)
qed

section \<open>Relaying the signalling of a call\<close>

text \<open>
  C7, as the code has it. None of the three relay handlers changes the state, so nothing is
  ever queued. For a call in the Call Table: \<open>webrtc_offer\<close> goes to the call's recorded
  receiver session and \<open>webrtc_answer\<close> to its recorded caller session, whoever sends
  them; if that session is not live the sender gets \<open>call_failed\<close> instead. Only
  \<open>webrtc_ice_candidate\<close> compares the sending session with the recorded caller session:
  the candidate goes to the recorded receiver session if they are equal and to the recorded
  caller session otherwise, and is dropped without notice if that session is not live.
\<close>

theorem relay_targets:
  "fst (handleWebRTCOffer g client callId p) = g \<and>
   fst (handleWebRTCAnswer g client callId p) = g \<and>
   fst (handleWebRTCIceCandidate g client callId p) = g \<and>
   (map_of (activeCalls g) callId = Some call \<longrightarrow>
      snd (handleWebRTCOffer g client callId p) =
        (if live g (receiverSocketId call)
         then [(to_room (receiverSocketId call), webrtc_offer callId p)]
         else [(to_client (client_id client), call_failed (Reason ''Receiver disconnected''))]) \<and>
      snd (handleWebRTCAnswer g client callId p) =
        (if live g (callerSocketId call)
         then [(to_room (callerSocketId call), webrtc_answer callId p)]
         else [(to_client (client_id client), call_failed (Reason ''Caller disconnected''))]) \<and>
      snd (handleWebRTCIceCandidate g client callId p) =
        (if client_id client = callerSocketId call
         then (if live g (receiverSocketId call)
               then [(to_room (receiverSocketId call), webrtc_ice_candidate callId p)] else [])
         else (if live g (callerSocketId call)
               then [(to_room (callerSocketId call), webrtc_ice_candidate callId p)] else [])))"
  by (simp add: handleWebRTCOffer_def handleWebRTCAnswer_def handleWebRTCIceCandidate_def
      Let_def split: option.splits)

theorem relay_targets_witness:
  "map_of (activeCalls g_accepted) ''c1'' \<noteq> None \<and>
   handleWebRTCOffer g_accepted sA ''c1'' ''sdp'' =
     (g_accepted, [(to_room ''s2'', webrtc_offer ''c1'' ''sdp'')]) \<and>
   handleWebRTCAnswer g_accepted sB ''c1'' ''sdp'' =
     (g_accepted, [(to_room ''s1'', webrtc_answer ''c1'' ''sdp'')]) \<and>
   handleWebRTCIceCandidate g_accepted sB ''c1'' ''ice'' =
     (g_accepted, [(to_room ''s1'', webrtc_ice_candidate ''c1'' ''ice'')])"
proof -
  obtain call where c: "map_of (activeCalls g_accepted) ''c1'' = Some call"
    and s: "callerSocketId call = ''s1''" "receiverSocketId call = ''s2''"
    by (simp add: g_accepted_eq)
  have lv: "live g_accepted ''s1''" "live g_accepted ''s2''"
    by (simp_all add: live_def truthy_def isSocketConnected_def g_accepted_eq)
  have cl: "client_id sA = ''s1''" "client_id sB = ''s2''"
    by (simp_all add: sA_def sB_def)
  have offer: "handleWebRTCOffer g_accepted sA ''c1'' ''sdp'' =
      (g_accepted, [(to_room ''s2'', webrtc_offer ''c1'' ''sdp'')])"
    using relay_targets [of g_accepted sA "''c1''" "''sdp''" call] c s lv
    by (simp add: prod_eq_iff)
  have answer: "handleWebRTCAnswer g_accepted sB ''c1'' ''sdp'' =
      (g_accepted, [(to_room ''s1'', webrtc_answer ''c1'' ''sdp'')])"
    using relay_targets [of g_accepted sB "''c1''" "''sdp''" call] c s lv
    by (simp add: prod_eq_iff)
  have ice: "handleWebRTCIceCandidate g_accepted sB ''c1'' ''ice'' =
      (g_accepted, [(to_room ''s1'', webrtc_ice_candidate ''c1'' ''ice'')])"
    using relay_targets [of g_accepted sB "''c1''" "''ice''" call] c s lv cl
    by (simp add: prod_eq_iff)
  from c offer answer ice show ?thesis by simp
qed

text \<open>
  The claim's own reading fails for offers and answers: in the accepted call the receiver's
  session \<open>s2\<close> sends an offer, the other participant's session is \<open>s1\<close>, and the offer is
  relayed to \<open>s2\<close> itself; likewise an answer from the caller's session \<open>s1\<close> comes back
  to \<open>s1\<close>.
\<close>

theorem offer_returns_to_sender_counterexample:
  "map_option callerSocketId (map_of (activeCalls g_accepted) ''c1'') = Some ''s1'' \<and>
   map_option receiverSocketId (map_of (activeCalls g_accepted) ''c1'') = Some ''s2'' \<and>
   client_id sB = ''s2'' \<and> client_id sA = ''s1'' \<and>
   snd (handleWebRTCOffer g_accepted sB ''c1'' ''sdp'') =
     [(to_room ''s2'', webrtc_offer ''c1'' ''sdp'')] \<and>
   snd (handleWebRTCAnswer g_accepted sA ''c1'' ''sdp'') =
     [(to_room ''s1'', webrtc_answer ''c1'' ''sdp'')]"
  by (simp add: g_accepted_eq sA_def sB_def handleWebRTCOffer_def handleWebRTCAnswer_def
      live_def truthy_def isSocketConnected_def)

section \<open>The credential\<close>

lemma verify_token_only:
  "verify g (client\<lparr>token := t\<rparr>) = (case t of None \<Rightarrow> None | Some x \<Rightarrow> jwtService g x)"
  by (simp add: verify_def)

text \<open>
  C1, as the code has it. The handlers of \<open>file_webrtc_offer\<close>, \<open>file_webrtc_answer\<close>,
  \<open>file_webrtc_ice_candidate\<close>, \<open>send_file_message\<close>, \<open>initiate_call\<close>,
  \<open>send_message\<close>, \<open>get_messages\<close>, \<open>mark_messages_read\<close>, \<open>set_active_chat\<close> and
  \<open>get_unread_counts\<close> verify the credential before anything else: when it is invalid or
  missing they leave the state as it is and emit nothing to any other session (nothing at
  all for the file relays, one failure event to the acting session otherwise). The
  handlers of \<open>check_user_online\<close>, \<open>accept_call\<close>, \<open>reject_call\<close>, \<open>end_call\<close>,
  \<open>webrtc_offer\<close>, \<open>webrtc_answer\<close> and \<open>webrtc_ice_candidate\<close> never read the
  credential: what they do is the same for every token.
\<close>

theorem credential_checked_where_identity_is_used:
  "(verify g client = None \<longrightarrow>
      handleFileWebRTCOffer g client target p = (g, []) \<and>
      handleFileWebRTCAnswer g client target p = (g, []) \<and>
      handleFileWebRTCIceCandidate g client target p = (g, []) \<and>
      handleFileMessage g client r c fName fSize fType newId now =
        (g, [(to_client (client_id client), error_event ''Failed to send file message'')]) \<and>
      handleInitiateCall g client r ty newId now =
        (g, [(to_client (client_id client), call_failed (Message ''Failed to initiate call''))]) \<and>
      handleMessage g client r c newId now =
        (g, [(to_client (client_id client), error_event ''Failed to send message'')]) \<and>
      handleGetMessages g client r =
        (g, [(to_client (client_id client), error_event ''Failed to get messages'')]) \<and>
      handleMarkMessagesRead g client r =
        (g, [(to_client (client_id client), error_event ''Failed to mark messages as read'')]) \<and>
      handleSetActiveChat g client chat =
        (g, [(to_client (client_id client), error_event ''Failed to set active chat'')]) \<and>
      handleGetUnreadCounts g client =
        (g, [(to_client (client_id client), error_event ''Failed to get unread counts'')])) \<and>
   handleCheckUserOnline g (client\<lparr>token := t\<rparr>) r = handleCheckUserOnline g client r \<and>
   handleAcceptCall g (client\<lparr>token := t\<rparr>) callId = handleAcceptCall g client callId \<and>
   handleRejectCall g (client\<lparr>token := t\<rparr>) callId now = handleRejectCall g client callId now \<and>
   handleEndCall g (client\<lparr>token := t\<rparr>) callId now = handleEndCall g client callId now \<and>
   handleWebRTCOffer g (client\<lparr>token := t\<rparr>) callId p = handleWebRTCOffer g client callId p \<and>
   handleWebRTCAnswer g (client\<lparr>token := t\<rparr>) callId p = handleWebRTCAnswer g client callId p \<and>
   handleWebRTCIceCandidate g (client\<lparr>token := t\<rparr>) callId p =
     handleWebRTCIceCandidate g client callId p"
proof -
  have checked: "verify g client = None \<longrightarrow>
      handleFileWebRTCOffer g client target p = (g, []) \<and>
      handleFileWebRTCAnswer g client target p = (g, []) \<and>
      handleFileWebRTCIceCandidate g client target p = (g, []) \<and>
      handleFileMessage g client r c fName fSize fType newId now =
        (g, [(to_client (client_id client), error_event ''Failed to send file message'')]) \<and>
      handleInitiateCall g client r ty newId now =
        (g, [(to_client (client_id client), call_failed (Message ''Failed to initiate call''))]) \<and>
      handleMessage g client r c newId now =
        (g, [(to_client (client_id client), error_event ''Failed to send message'')]) \<and>
      handleGetMessages g client r =
        (g, [(to_client (client_id client), error_event ''Failed to get messages'')]) \<and>
      handleMarkMessagesRead g client r =
        (g, [(to_client (client_id client), error_event ''Failed to mark messages as read'')]) \<and>
      handleSetActiveChat g client chat =
        (g, [(to_client (client_id client), error_event ''Failed to set active chat'')]) \<and>
      handleGetUnreadCounts g client =
        (g, [(to_client (client_id client), error_event ''Failed to get unread counts'')])"
    by (simp add: handleFileWebRTCOffer_def handleFileWebRTCAnswer_def
        handleFileWebRTCIceCandidate_def handleFileMessage_def handleInitiateCall_def
        handleMessage_def handleGetMessages_def handleMarkMessagesRead_def
        handleSetActiveChat_def handleGetUnreadCounts_def)
  have ignored:
    "handleCheckUserOnline g (client\<lparr>token := t\<rparr>) r = handleCheckUserOnline g client r"
    "handleAcceptCall g (client\<lparr>token := t\<rparr>) callId = handleAcceptCall g client callId"
    "handleRejectCall g (client\<lparr>token := t\<rparr>) callId now = handleRejectCall g client callId now"
    "handleEndCall g (client\<lparr>token := t\<rparr>) callId now = handleEndCall g client callId now"
    "handleWebRTCOffer g (client\<lparr>token := t\<rparr>) callId p = handleWebRTCOffer g client callId p"
    "handleWebRTCAnswer g (client\<lparr>token := t\<rparr>) callId p = handleWebRTCAnswer g client callId p"
    "handleWebRTCIceCandidate g (client\<lparr>token := t\<rparr>) callId p =
       handleWebRTCIceCandidate g client callId p"
    by (simp_all add: handleCheckUserOnline_def handleAcceptCall_def handleRejectCall_def
        handleEndCall_def handleWebRTCOffer_def handleWebRTCAnswer_def
        handleWebRTCIceCandidate_def cong: option.case_cong if_cong)
  from checked ignored show ?thesis by (intro conjI)
qed

theorem credential_checked_where_identity_is_used_witness:
  "verify g_expired sA = None \<and>
   handleInitiateCall g_expired sA ''B'' audio ''c2'' 3000 =
     (g_expired, [(to_client ''s1'', call_failed (Message ''Failed to initiate call''))]) \<and>
   handleMessage g_expired sA ''B'' ''hi'' ''m1'' 3000 =
     (g_expired, [(to_client ''s1'', error_event ''Failed to send message'')]) \<and>
   handleFileWebRTCOffer g_expired sA ''B'' ''sdp'' = (g_expired, [])"
proof -
  have bad: "verify g_expired sA = None"
    by (simp add: verify_def g_expired_def sA_def)
  have cl: "client_id sA = ''s1''"
    by (simp add: sA_def)
  show ?thesis
    using bad cl
      credential_checked_where_identity_is_used
        [of g_expired sA "''B''" "''sdp''" "''B''" "''hi''" _ _ _ "''m1''" 3000 audio]
      credential_checked_where_identity_is_used
        [of g_expired sA "''B''" "''sdp''" "''B''" "''hi''" _ _ _ "''c2''" 3000 audio]
    by simp
qed

text \<open>
  The claim's own reading fails: with every token expired, \<open>accept_call\<close> from Bob's
  session still moves the ringing call to \<open>accepted\<close>, in the Call Table and in the store,
  and relays \<open>call_accepted\<close> to Alice's session.
\<close>

theorem accept_call_without_credential_counterexample:
  "verify g_expired sB = None \<and>
   call_status_of (prisma g_expired) ''c1'' = Some initiated \<and>
   call_status_of (prisma (fst (handleAcceptCall g_expired sB ''c1''))) ''c1'' = Some accepted \<and>
   map_option status (map_of (activeCalls (fst (handleAcceptCall g_expired sB ''c1''))) ''c1'')
     = Some accepted \<and>
   snd (handleAcceptCall g_expired sB ''c1'') =
     [(to_room ''s1'', call_accepted ''c1''), (to_client ''s2'', call_accepted ''c1'')]"
  by (simp add: g_expired_def g_ringing_eq verify_def sB_def handleAcceptCall_def
      call_update_def call_status_of_def live_def truthy_def isSocketConnected_def)

section \<open>Sending a message\<close>

lemma message_create_Some:
  assumes "message_create db newId now c ty fName fSize fType s r = Some (db', msg)"
  shows "up db'" and "msg_id msg = newId" and "content msg = c" and "senderId msg = s"
    and "receiverId_m msg = r" and "\<not> isRead msg"
    and "messages db' = messages db @
           [\<lparr>msg_id = newId, content = c, msg_type = ty, fileName = fName, fileSize = fSize,
             fileType = fType, senderId = s, receiverId_m = r, isRead = False,
             createdAt_m = now\<rparr>]"
  using assms
  by (auto simp: message_create_def include_users_def Let_def split: if_splits option.splits)

lemma sendUnreadCounts_up:
  assumes "up (prisma g)"
  shows "sendUnreadCounts g u =
           (case connectedSocket g u of
              None \<Rightarrow> []
            | Some s \<Rightarrow> [(to_room s, unread_counts (unread_by_sender (messages (prisma g)) u))])"
  using assms by (simp add: sendUnreadCounts_def message_groupBy_def)

lemma connectedSocket_prisma [simp]:
  "connectedSocket (g\<lparr>prisma := db\<rparr>) u = connectedSocket g u"
  by (simp add: connectedSocket_def)

text \<open>
  C8, as the code has it. A send succeeds when the credential verifies and the store creates
  the record. Then the store holds the new message, unread; if the receiver is reachable
  its session gets the full message and then its unread counts; and the sender's session is
  answered last with \<open>message_sent\<close> and the persisted message. For
  \<open>send_file_message\<close> the answer (and the receiver's copy) carries the receiver-online
  flag; for \<open>send_message\<close> neither carries a flag.
\<close>

theorem message_send_ack:
  assumes "verify g client = Some sub"
  shows
    "(message_create (prisma g) newId now c file_message (Some fName) (Some fSize) (Some fType)
        sub r = Some (db, msg) \<longrightarrow>
      msg_id msg = newId \<and> newId \<in> set (map msg_id (messages db)) \<and>
      handleFileMessage g client r c fName fSize fType newId now =
        (g\<lparr>prisma := db\<rparr>,
         (case connectedSocket g r of
            None \<Rightarrow> []
          | Some rs \<Rightarrow>
              [(to_room rs, receive_message msg (Some True)),
               (to_room rs, unread_counts (unread_by_sender (messages db) r))])
         @ [(to_client (client_id client),
             message_sent msg (Some (connectedSocket g r \<noteq> None)))])) \<and>
     (message_create (prisma g) newId now c text_message None None None sub r
        = Some (db, msg) \<longrightarrow>
      msg_id msg = newId \<and> newId \<in> set (map msg_id (messages db)) \<and>
      handleMessage g client r c newId now =
        (g\<lparr>prisma := db\<rparr>,
         (case connectedSocket g r of
            None \<Rightarrow> []
          | Some rs \<Rightarrow>
              [(to_room rs, receive_message msg None),
               (to_room rs, unread_counts (unread_by_sender (messages db) r))])
         @ [(to_client (client_id client), message_sent msg None)]))"
proof (intro conjI impI)
  assume made: "message_create (prisma g) newId now c file_message (Some fName) (Some fSize)
      (Some fType) sub r = Some (db, msg)"
  show "msg_id msg = newId"
    using message_create_Some(2) [OF made] .
  show "newId \<in> set (map msg_id (messages db))"
    using message_create_Some(7) [OF made] by simp
  have "up (prisma (g\<lparr>prisma := db\<rparr>))"
    using message_create_Some(1) [OF made] by simp
  from sendUnreadCounts_up [OF this, of r]
  show "handleFileMessage g client r c fName fSize fType newId now =
        (g\<lparr>prisma := db\<rparr>,
         (case connectedSocket g r of
            None \<Rightarrow> []
          | Some rs \<Rightarrow>
              [(to_room rs, receive_message msg (Some True)),
               (to_room rs, unread_counts (unread_by_sender (messages db) r))])
         @ [(to_client (client_id client),
             message_sent msg (Some (connectedSocket g r \<noteq> None)))])"
    using assms made
    by (simp add: handleFileMessage_def Let_def split: option.splits)
next
  assume made: "message_create (prisma g) newId now c text_message None None None sub r
      = Some (db, msg)"
  show "msg_id msg = newId"
    using message_create_Some(2) [OF made] .
  show "newId \<in> set (map msg_id (messages db))"
    using message_create_Some(7) [OF made] by simp
  have "up (prisma (g\<lparr>prisma := db\<rparr>))"
    using message_create_Some(1) [OF made] by simp
  from sendUnreadCounts_up [OF this, of r]
  show "handleMessage g client r c newId now =
        (g\<lparr>prisma := db\<rparr>,
         (case connectedSocket g r of
            None \<Rightarrow> []
          | Some rs \<Rightarrow>
              [(to_room rs, receive_message msg None),
               (to_room rs, unread_counts (unread_by_sender (messages db) r))])
         @ [(to_client (client_id client), message_sent msg None)])"
    using assms made
    by (simp add: handleMessage_def Let_def split: option.splits)
qed

lemma create_hi:
  "message_create (prisma g_online) ''m1'' 5 ''hi'' text_message None None None ''A'' ''B'' =
     Some ((prisma g_online)\<lparr>messages :=
             [\<lparr>msg_id = ''m1'', content = ''hi'', msg_type = text_message, fileName = None,
               fileSize = None, fileType = None, senderId = ''A'', receiverId_m = ''B'',
               isRead = False, createdAt_m = 5\<rparr>]\<rparr>, msg_hi)"
  by (simp add: g_online_eq message_create_def include_users_def find_user_def alice_def
      bob_def msg_hi_def)

lemma create_doc:
  "message_create (prisma g_online) ''m1'' 5 ''doc'' file_message (Some ''a.txt'') (Some 12)
       (Some ''text/plain'') ''A'' ''B'' =
     Some ((prisma g_online)\<lparr>messages :=
             [\<lparr>msg_id = ''m1'', content = ''doc'', msg_type = file_message,
               fileName = Some ''a.txt'', fileSize = Some 12, fileType = Some ''text/plain'',
               senderId = ''A'', receiverId_m = ''B'', isRead = False, createdAt_m = 5\<rparr>]\<rparr>,
           msg_doc)"
  by (simp add: g_online_eq message_create_def include_users_def find_user_def alice_def
      bob_def msg_doc_def)

theorem message_send_ack_witness:
  "verify g_online sA = Some ''A'' \<and>
   snd (handleFileMessage g_online sA ''B'' ''doc'' ''a.txt'' 12 ''text/plain'' ''m1'' 5) =
     [(to_room ''s2'', receive_message msg_doc (Some True)),
      (to_room ''s2'', unread_counts [(''A'', 1)]),
      (to_client ''s1'', message_sent msg_doc (Some True))] \<and>
   snd (handleMessage g_online sA ''B'' ''hi'' ''m1'' 5) =
     [(to_room ''s2'', receive_message msg_hi None),
      (to_room ''s2'', unread_counts [(''A'', 1)]),
      (to_client ''s1'', message_sent msg_hi None)]"
proof -
  let ?doc = "(prisma g_online)\<lparr>messages :=
             [\<lparr>msg_id = ''m1'', content = ''doc'', msg_type = file_message,
               fileName = Some ''a.txt'', fileSize = Some 12, fileType = Some ''text/plain'',
               senderId = ''A'', receiverId_m = ''B'', isRead = False, createdAt_m = 5\<rparr>]\<rparr>"
  let ?hi = "(prisma g_online)\<lparr>messages :=
             [\<lparr>msg_id = ''m1'', content = ''hi'', msg_type = text_message, fileName = None,
               fileSize = None, fileType = None, senderId = ''A'', receiverId_m = ''B'',
               isRead = False, createdAt_m = 5\<rparr>]\<rparr>"
  have ok: "verify g_online sA = Some ''A''"
    by (simp add: verify_def g_online_eq sA_def jwt0_def)
  have bob_on: "connectedSocket g_online ''B'' = Some ''s2''"
    by (simp add: connectedSocket_def truthy_def g_online_eq)
  have cl: "client_id sA = ''s1''"
    by (simp add: sA_def)
  have sent_file: "snd (handleFileMessage g_online sA ''B'' ''doc'' ''a.txt'' 12 ''text/plain''
                 ''m1'' 5) =
     [(to_room ''s2'', receive_message msg_doc (Some True)),
      (to_room ''s2'', unread_counts [(''A'', 1)]),
      (to_client ''s1'', message_sent msg_doc (Some True))]"
    using message_send_ack [where g = g_online and client = sA and sub = "''A''"
        and newId = "''m1''" and now = 5 and c = "''doc''" and fName = "''a.txt''"
        and fSize = 12 and fType = "''text/plain''" and r = "''B''" and db = ?doc
        and msg = msg_doc, OF ok] create_doc bob_on cl
    by (simp add: unread_by_sender_def)
  have sent_text: "snd (handleMessage g_online sA ''B'' ''hi'' ''m1'' 5) =
     [(to_room ''s2'', receive_message msg_hi None),
      (to_room ''s2'', unread_counts [(''A'', 1)]),
      (to_client ''s1'', message_sent msg_hi None)]"
    using message_send_ack [where g = g_online and client = sA and sub = "''A''"
        and newId = "''m1''" and now = 5 and c = "''hi''" and r = "''B''" and db = ?hi
        and msg = msg_hi, OF ok] create_hi bob_on cl
    by (simp add: unread_by_sender_def)
  from ok sent_file sent_text show ?thesis by simp
qed

text \<open>
  The claim's own reading fails for text messages: Bob is online, Alice's \<open>send_message\<close>
  succeeds, and the \<open>message_sent\<close> that answers Alice carries the persisted message and
  no receiver-online flag.
\<close>

theorem text_ack_without_flag_counterexample:
  "connectedSocket g_online ''B'' = Some ''s2'' \<and>
   snd (handleMessage g_online sA ''B'' ''hi'' ''m1'' 5) =
     [(to_room ''s2'', receive_message msg_hi None),
      (to_room ''s2'', unread_counts [(''A'', 1)]),
      (to_client ''s1'', message_sent msg_hi None)]"
proof -
  have ok: "verify g_online sA = Some ''A''"
    by (simp add: verify_def g_online_eq sA_def jwt0_def)
  have bob_on: "connectedSocket g_online ''B'' = Some ''s2''"
    by (simp add: connectedSocket_def truthy_def g_online_eq)
  have counts: "sendUnreadCounts
      (g_online\<lparr>prisma := (prisma g_online)\<lparr>messages :=
             [\<lparr>msg_id = ''m1'', content = ''hi'', msg_type = text_message, fileName = None,
               fileSize = None, fileType = None, senderId = ''A'', receiverId_m = ''B'',
               isRead = False, createdAt_m = 5\<rparr>]\<rparr>\<rparr>) ''B'' =
      [(to_room ''s2'', unread_counts [(''A'', 1)])]"
    by (simp add: sendUnreadCounts_def message_groupBy_def unread_by_sender_def
        connectedSocket_def truthy_def g_online_eq)
  show ?thesis
    using ok bob_on counts create_hi
    by (simp add: handleMessage_def Let_def sA_def)
qed

section \<open>The status of a call over all runs\<close>

lemma status_move_refl [simp]: "status_move s s"
  by (simp add: status_move_def)

lemma status_move_trans: "status_move a b \<Longrightarrow> status_move b c \<Longrightarrow> status_move a c"
  by (auto simp: status_move_def)

lemma statuses_move_refl [simp]: "statuses_move g g"
  by (simp add: statuses_move_def)

lemma statuses_move_trans:
  assumes "statuses_move a b" and "statuses_move b c"
  shows "statuses_move a c"
  unfolding statuses_move_def
proof (intro allI impI)
  fix cid s
  assume "call_status_of (prisma a) cid = Some s"
  with assms(1) obtain s1 where s1: "call_status_of (prisma b) cid = Some s1" "status_move s s1"
    by (auto simp: statuses_move_def)
  with assms(2) obtain s2 where s2: "call_status_of (prisma c) cid = Some s2" "status_move s1 s2"
    by (auto simp: statuses_move_def)
  from s1 s2 show "\<exists>s'. call_status_of (prisma c) cid = Some s' \<and> status_move s s'"
    using status_move_trans by blast
qed

lemma statuses_move_same_calls:
  "calls (prisma g') = calls (prisma g) \<Longrightarrow> statuses_move g g'"
  by (auto simp: statuses_move_def call_status_of_def)

lemma call_table_ok_same:
  assumes "call_table_ok g" and "map fst (activeCalls g') = map fst (activeCalls g)"
      and "calls (prisma g') = calls (prisma g)"
  shows "call_table_ok g'"
  using assms by (simp add: call_table_ok_def call_status_of_def)

lemma status_after_update:
  assumes "call_update db cid f = Some db'" and "\<And>r. call_id (f r) = call_id r"
      and "\<And>r. status (f r) = st"
  shows "call_status_of db' k =
         (if k = cid then map_option (\<lambda>_. st) (call_status_of db cid) else call_status_of db k)"
  using call_row_of_update [OF assms(1,2), of k] assms(3)
  by (cases "call_row_of db cid") (simp_all add: call_status_of_row)

text \<open>
  An update of a call that the table holds, where the table afterwards holds the same keys
  or loses this one.
\<close>

lemma update_live_call:
  assumes ok: "call_table_ok g"
      and k: "k \<in> set (map fst (activeCalls g))"
      and upd: "call_update (prisma g) k f = Some db"
      and f: "\<And>r. call_id (f r) = call_id r" "\<And>r. status (f r) = st"
      and st: "st \<in> {accepted, rejected, ended}"
      and p: "prisma g' = db"
  shows "statuses_move g g'"
    and "st = accepted \<Longrightarrow> map fst (activeCalls g') = map fst (activeCalls g)
           \<Longrightarrow> call_table_ok g'"
    and "activeCalls g' = AList.delete k (activeCalls g) \<Longrightarrow> call_table_ok g'"
proof -
  have old: "call_status_of (prisma g) k = Some initiated \<or>
             call_status_of (prisma g) k = Some accepted"
    using ok k by (auto simp: call_table_ok_def)
  have after: "call_status_of (prisma g') j =
      (if j = k then Some st else call_status_of (prisma g) j)" for j
    using status_after_update [OF upd f, of j] old p by auto
  show "statuses_move g g'"
    using old st by (auto simp: statuses_move_def after status_move_def)
  show "call_table_ok g'"
    if "st = accepted" "map fst (activeCalls g') = map fst (activeCalls g)"
    using ok that by (auto simp: call_table_ok_def after)
  show "call_table_ok g'" if "activeCalls g' = AList.delete k (activeCalls g)"
    using ok that
    by (auto simp: call_table_ok_def after AList.delete_keys distinct_removeAll)
qed

lemma map_of_keys:
  assumes "map_of al k = Some v"
  shows "k \<in> set (map fst al)"
proof (rule ccontr)
  assume "k \<notin> set (map fst al)"
  then have "map_of al k = None"
    by (simp add: map_of_eq_None_iff)
  with assms show False by simp
qed

lemma update_keys_present:
  "map_of al k = Some v \<Longrightarrow> map fst (AList.update k w al) = map fst al"
  using map_of_keys [of al k v] by (simp add: AList.update_keys)

lemma accept_ok:
  assumes "call_table_ok g"
  shows "call_table_ok (fst (handleAcceptCall g client callId)) \<and>
         statuses_move g (fst (handleAcceptCall g client callId))"
proof (cases "map_of (activeCalls g) callId")
  case None
  then show ?thesis using assms by (simp add: accept_absent)
next
  case (Some call)
  show ?thesis
  proof (cases "call_update (prisma g) callId (\<lambda>r. r\<lparr>status := accepted\<rparr>)")
    case None
    then show ?thesis using assms Some by (simp add: handleAcceptCall_def)
  next
    case (Some db)
    let ?g' = "g\<lparr>prisma := db,
                 activeCalls := AList.update callId
                   (call\<lparr>receiverSocketId := client_id client, status := accepted\<rparr>)
                   (activeCalls g)\<rparr>"
    have res: "fst (handleAcceptCall g client callId) = ?g'"
      using \<open>map_of (activeCalls g) callId = Some call\<close> Some
      by (simp add: handleAcceptCall_def)
    have k: "callId \<in> set (map fst (activeCalls g))"
      using \<open>map_of (activeCalls g) callId = Some call\<close> by (rule map_of_keys)
    have keys: "map fst (activeCalls ?g') = map fst (activeCalls g)"
      using \<open>map_of (activeCalls g) callId = Some call\<close> by (simp add: update_keys_present)
    show ?thesis
      unfolding res
      using update_live_call(1) [OF assms k Some, of accepted ?g']
        update_live_call(2) [OF assms k Some, of accepted ?g'] keys
      by simp
  qed
qed

lemma reject_ok:
  assumes "call_table_ok g"
  shows "call_table_ok (fst (handleRejectCall g client callId now)) \<and>
         statuses_move g (fst (handleRejectCall g client callId now))"
proof (cases "map_of (activeCalls g) callId")
  case None
  then show ?thesis using assms by (simp add: reject_absent)
next
  case (Some call)
  show ?thesis
  proof (cases "call_update (prisma g) callId (\<lambda>r. r\<lparr>status := rejected, endedAt := Some now\<rparr>)")
    case None
    then show ?thesis using assms Some by (simp add: handleRejectCall_def)
  next
    case (Some db)
    let ?g' = "g\<lparr>prisma := db, activeCalls := AList.delete callId (activeCalls g)\<rparr>"
    have res: "fst (handleRejectCall g client callId now) = ?g'"
      using \<open>map_of (activeCalls g) callId = Some call\<close> Some
      by (simp add: handleRejectCall_def)
    have k: "callId \<in> set (map fst (activeCalls g))"
      using \<open>map_of (activeCalls g) callId = Some call\<close> by (rule map_of_keys)
    show ?thesis
      unfolding res
      using update_live_call(1) [OF assms k Some, of rejected ?g']
        update_live_call(3) [OF assms k Some, of rejected ?g']
      by simp
  qed
qed

lemma end_ok:
  assumes "call_table_ok g"
  shows "call_table_ok (fst (handleEndCall g client callId now)) \<and>
         statuses_move g (fst (handleEndCall g client callId now))"
proof (cases "map_of (activeCalls g) callId")
  case None
  then show ?thesis using assms by (simp add: end_absent)
next
  case (Some call)
  show ?thesis
  proof (cases "call_update (prisma g) callId
                  (\<lambda>r. r\<lparr>status := ended, endedAt := Some now,
                         duration := Some (call_duration now call)\<rparr>)")
    case None
    then show ?thesis using assms Some by (simp add: handleEndCall_def)
  next
    case (Some db)
    let ?g' = "g\<lparr>prisma := db, activeCalls := AList.delete callId (activeCalls g)\<rparr>"
    have res: "fst (handleEndCall g client callId now) = ?g'"
      using \<open>map_of (activeCalls g) callId = Some call\<close> Some
      by (simp add: handleEndCall_def)
    have k: "callId \<in> set (map fst (activeCalls g))"
      using \<open>map_of (activeCalls g) callId = Some call\<close> by (rule map_of_keys)
    show ?thesis
      unfolding res
      using update_live_call(1) [OF assms k Some, of ended ?g']
        update_live_call(3) [OF assms k Some, of ended ?g']
      by simp
  qed
qed

lemma message_create_calls:
  "message_create db newId now c ty fName fSize fType s r = Some (db', msg) \<Longrightarrow>
   calls db' = calls db"
  by (auto simp: message_create_def Let_def split: if_splits option.splits)

lemma message_updateMany_calls:
  "message_updateMany db s r = Some (db', n) \<Longrightarrow> calls db' = calls db"
  by (auto simp: message_updateMany_def Let_def split: if_splits)

lemma connection_keeps_calls:
  "map fst (activeCalls (fst (handleConnection g client))) = map fst (activeCalls g) \<and>
   calls (prisma (fst (handleConnection g client))) = calls (prisma g)"
  by (simp add: handleConnection_def updateUserSocketInActiveCalls_def Let_def
      case_prod_beta comp_def split: option.splits)

lemma disconnect_keeps_calls:
  "activeCalls (handleDisconnect g client) = activeCalls g \<and>
   prisma (handleDisconnect g client) = prisma g"
  by (simp add: handleDisconnect_def split: option.splits prod.splits)

lemma file_message_keeps_calls:
  "activeCalls (fst (handleFileMessage g client r c fName fSize fType newId now)) = activeCalls g \<and>
   calls (prisma (fst (handleFileMessage g client r c fName fSize fType newId now)))
     = calls (prisma g)"
  by (auto simp: handleFileMessage_def Let_def dest: message_create_calls split: option.splits)

lemma message_keeps_calls:
  "activeCalls (fst (handleMessage g client r c newId now)) = activeCalls g \<and>
   calls (prisma (fst (handleMessage g client r c newId now))) = calls (prisma g)"
  by (auto simp: handleMessage_def Let_def dest: message_create_calls split: option.splits)

lemma mark_read_keeps_calls:
  "activeCalls (fst (handleMarkMessagesRead g client s)) = activeCalls g \<and>
   calls (prisma (fst (handleMarkMessagesRead g client s))) = calls (prisma g)"
  by (auto simp: handleMarkMessagesRead_def Let_def dest: message_updateMany_calls
      split: option.splits)

lemma set_active_chat_keeps_calls:
  "activeCalls (fst (handleSetActiveChat g client r)) = activeCalls g \<and>
   calls (prisma (fst (handleSetActiveChat g client r))) = calls (prisma g)"
  by (auto simp: handleSetActiveChat_def Let_def dest: message_updateMany_calls
      split: option.splits if_splits)

lemma relays_keep_state:
  "fst (handleFileWebRTCOffer g client t p) = g"
  "fst (handleFileWebRTCAnswer g client t p) = g"
  "fst (handleFileWebRTCIceCandidate g client t p) = g"
  "fst (handleCheckUserOnline g client t) = g"
  "fst (handleGetMessages g client t) = g"
  "fst (handleGetUnreadCounts g client) = g"
  "fst (handleWebRTCOffer g client t p) = g"
  "fst (handleWebRTCAnswer g client t p) = g"
  "fst (handleWebRTCIceCandidate g client t p) = g"
  by (simp_all add: handleFileWebRTCOffer_def handleFileWebRTCAnswer_def
      handleFileWebRTCIceCandidate_def handleCheckUserOnline_def handleGetMessages_def
      handleGetUnreadCounts_def handleWebRTCOffer_def handleWebRTCAnswer_def
      handleWebRTCIceCandidate_def Let_def split: option.splits)

lemma find_append_rows:
  "find P (xs @ ys) = (case find P xs of None \<Rightarrow> find P ys | Some x \<Rightarrow> Some x)"
  by (induction xs) auto

lemma call_create_Some:
  assumes "call_create db newId now ty st cr rc = Some (db', row, c, r)"
  shows "newId \<notin> set (map call_id (calls db))" and "calls db' = calls db @ [row]"
    and "call_id row = newId" and "status row = st"
  using assms
  by (auto simp: call_create_def Let_def split: if_splits option.splits)

lemma status_after_create:
  assumes "call_create db newId now ty st cr rc = Some (db', row, c, r)"
  shows "call_status_of db' k = (if k = newId then Some st else call_status_of db k)"
proof -
  have none: "find (\<lambda>r. call_id r = newId) (calls db) = None"
    using call_create_Some(1) [OF assms] by (auto simp: find_None_iff)
  show ?thesis
    using none call_create_Some(2,3,4) [OF assms]
    by (auto simp: call_status_of_def find_append_rows split: option.splits)
qed

lemma initiate_ok:
  assumes "call_table_ok g"
  shows "call_table_ok (fst (handleInitiateCall g client r ty newId now)) \<and>
         statuses_move g (fst (handleInitiateCall g client r ty newId now))"
proof (cases "verify g client")
  case None
  then show ?thesis using assms by (simp add: handleInitiateCall_def)
next
  case (Some sub)
  note verified = this
  show ?thesis
  proof (cases "connectedSocket g r")
    case None
    then show ?thesis using assms verified by (simp add: handleInitiateCall_def)
  next
    case (Some rs)
    note online = this
    show ?thesis
    proof (cases "call_create (prisma g) newId now ty initiated sub r")
      case None
      then show ?thesis using assms verified online by (simp add: handleInitiateCall_def)
    next
      case (Some created)
      obtain db row c p where created: "created = (db, row, c, p)"
        by (cases created) auto
      have made: "call_create (prisma g) newId now ty initiated sub r = Some (db, row, c, p)"
        using Some created by simp
      let ?g' = "fst (handleInitiateCall g client r ty newId now)"
      have db: "prisma ?g' = db"
        using verified online made by (simp add: handleInitiateCall_def)
      have keys: "map fst (activeCalls ?g') =
          (if newId \<in> set (map fst (activeCalls g)) then map fst (activeCalls g)
           else map fst (activeCalls g) @ [newId])"
        using verified online made call_create_Some(3) [OF made]
        by (simp add: handleInitiateCall_def AList.update_keys)
      have fresh: "call_status_of (prisma g) newId = None"
        using call_create_Some(1) [OF made] by (auto simp: call_status_of_def find_None_iff)
      have not_live: "newId \<notin> set (map fst (activeCalls g))"
        using assms fresh by (auto simp: call_table_ok_def)
      have after: "call_status_of (prisma ?g') k =
          (if k = newId then Some initiated else call_status_of (prisma g) k)" for k
        using status_after_create [OF made] db by simp
      have moves: "statuses_move g ?g'"
        using fresh by (auto simp: statuses_move_def after)
      have table: "call_table_ok ?g'"
        using assms not_live keys by (auto simp: call_table_ok_def after)
      from table moves show ?thesis ..
    qed
  qed
qed

text \<open>
  The loop of \<open>handleUserDisconnectFromCalls\<close>, entry by entry: the entries still to
  visit have distinct keys and are all in the table.
\<close>

lemma disconnectCalls_ok:
  assumes "call_table_ok g" and "distinct (map fst rest)"
      and "set (map fst rest) \<subseteq> set (map fst (activeCalls g))"
  shows "call_table_ok (fst (disconnectCalls rest g userId now)) \<and>
         statuses_move g (fst (disconnectCalls rest g userId now))"
  using assms
proof (induction rest arbitrary: g)
  case Nil
  then show ?case by simp
next
  case (Cons entry rest)
  obtain callId call where entry: "entry = (callId, call)"
    by (cases entry) auto
  have k: "callId \<in> set (map fst (activeCalls g))"
    using Cons.prems(3) entry by simp
  have rest_distinct: "distinct (map fst rest)" and fresh: "callId \<notin> set (map fst rest)"
    using Cons.prems(2) entry by simp_all
  show ?case
  proof (cases "callerId call = userId \<or> receiverId call = userId")
    case False
    have "set (map fst rest) \<subseteq> set (map fst (activeCalls g))"
      using Cons.prems(3) by simp
    from Cons.IH [OF Cons.prems(1) rest_distinct this] False
    show ?thesis by (simp add: entry)
  next
    case True
    let ?f = "\<lambda>r. r\<lparr>status := ended, endedAt := Some now\<rparr>"
    let ?db = "case call_update (prisma g) callId ?f of None \<Rightarrow> prisma g | Some db' \<Rightarrow> db'"
    let ?g1 = "g\<lparr>prisma := ?db, activeCalls := AList.delete callId (activeCalls g)\<rparr>"
    have unfold: "fst (disconnectCalls (entry # rest) g userId now) =
        fst (disconnectCalls rest ?g1 userId now)"
      using True by (simp add: entry Let_def)
    have step1: "call_table_ok ?g1 \<and> statuses_move g ?g1"
    proof (cases "call_update (prisma g) callId ?f")
      case None
      then have same: "calls (prisma ?g1) = calls (prisma g)" by simp
      have "statuses_move g ?g1"
        using same by (rule statuses_move_same_calls)
      moreover have "call_table_ok ?g1"
        using Cons.prems(1) None
        by (auto simp: call_table_ok_def AList.delete_keys distinct_removeAll)
      ultimately show ?thesis by simp
    next
      case (Some db)
      then have p: "prisma ?g1 = db" by simp
      show ?thesis
        using update_live_call(1) [OF Cons.prems(1) k Some, of ended ?g1]
          update_live_call(3) [OF Cons.prems(1) k Some, of ended ?g1] p
        by simp
    qed
    have sub: "set (map fst rest) \<subseteq> set (map fst (activeCalls ?g1))"
      using Cons.prems(3) fresh by (auto simp: AList.delete_keys)
    from Cons.IH [OF conjunct1 [OF step1] rest_distinct sub]
    have later: "call_table_ok (fst (disconnectCalls rest ?g1 userId now))"
      and moves: "statuses_move ?g1 (fst (disconnectCalls rest ?g1 userId now))"
      by simp_all
    show ?thesis
      unfolding unfold
      using later statuses_move_trans [OF conjunct2 [OF step1] moves] by simp
  qed
qed

lemma timeout_ok:
  assumes "call_table_ok g"
  shows "call_table_ok (fst (disconnectTimeout g userId socketId now)) \<and>
         statuses_move g (fst (disconnectTimeout g userId socketId now))"
proof (cases "map_of (connectedUsers g) userId = Some socketId")
  case False
  then show ?thesis using assms by (simp add: disconnectTimeout_def)
next
  case True
  let ?g1 = "g\<lparr>connectedUsers := AList.delete userId (connectedUsers g),
                userActiveChats := AList.delete userId (userActiveChats g)\<rparr>"
  have ok1: "call_table_ok ?g1"
    using assms by (simp add: call_table_ok_def)
  have d: "distinct (map fst (activeCalls ?g1))"
    using assms by (simp add: call_table_ok_def)
  have "call_table_ok (fst (disconnectCalls (activeCalls ?g1) ?g1 userId now)) \<and>
        statuses_move ?g1 (fst (disconnectCalls (activeCalls ?g1) ?g1 userId now))"
    using disconnectCalls_ok [OF ok1 d] by simp
  moreover have "statuses_move g ?g1"
    by (rule statuses_move_same_calls) simp
  ultimately show ?thesis
    using True statuses_move_trans [of g ?g1]
    by (simp add: disconnectTimeout_def handleUserDisconnectFromCalls_def)
qed

lemma kept_ok:
  assumes "call_table_ok g" and "map fst (activeCalls g') = map fst (activeCalls g)"
      and "calls (prisma g') = calls (prisma g)"
  shows "call_table_ok g' \<and> statuses_move g g'"
  using call_table_ok_same [OF assms] statuses_move_same_calls [OF assms(3)] by simp

lemma step_ok:
  assumes "call_table_ok g"
  shows "call_table_ok (fst (step now newId g ev)) \<and> statuses_move g (fst (step now newId g ev))"
proof (cases ev)
  case (attach client)
  let ?g0 = "g\<lparr>sockets := List.insert (client_id client) (sockets g)\<rparr>"
  show ?thesis
    unfolding attach step.simps
    using connection_keeps_calls [of ?g0 client]
    by (intro kept_ok [OF assms]) simp_all
next
  case (detach client)
  let ?g0 = "g\<lparr>sockets := removeAll (client_id client) (sockets g)\<rparr>"
  show ?thesis
    unfolding detach step.simps
    using disconnect_keeps_calls [of ?g0 client]
    by (intro kept_ok [OF assms]) simp_all
next
  case timer_fires
  show ?thesis
  proof (cases "timers g")
    case Nil
    then show ?thesis using assms timer_fires by simp
  next
    case (Cons t ts)
    obtain userId socketId where t: "t = (userId, socketId)" by (cases t) auto
    have ok: "call_table_ok (g\<lparr>timers := ts\<rparr>)"
      using assms by (simp add: call_table_ok_def)
    have same: "statuses_move g (g\<lparr>timers := ts\<rparr>)"
      by (rule statuses_move_same_calls) simp
    show ?thesis
      using timeout_ok [OF ok, of userId socketId now] same Cons t timer_fires
        statuses_move_trans [of g "g\<lparr>timers := ts\<rparr>"]
      by simp
  qed
next
  case (store_up b)
  show ?thesis
    unfolding store_up step.simps
    by (intro kept_ok [OF assms]) simp_all
next
  case (on_send_file_message client r c fName fSize fType)
  show ?thesis
    unfolding on_send_file_message step.simps
    using file_message_keeps_calls [of g client r c fName fSize fType newId now]
    by (intro kept_ok [OF assms]) simp_all
next
  case (on_send_message client r c)
  show ?thesis
    unfolding on_send_message step.simps
    using message_keeps_calls [of g client r c newId now]
    by (intro kept_ok [OF assms]) simp_all
next
  case (on_mark_messages_read client s)
  show ?thesis
    unfolding on_mark_messages_read step.simps
    using mark_read_keeps_calls [of g client s]
    by (intro kept_ok [OF assms]) simp_all
next
  case (on_set_active_chat client r)
  show ?thesis
    unfolding on_set_active_chat step.simps
    using set_active_chat_keeps_calls [of g client r]
    by (intro kept_ok [OF assms]) simp_all
next
  case (on_initiate_call client r ty)
  then show ?thesis using initiate_ok [OF assms] by simp
next
  case (on_accept_call client callId)
  then show ?thesis using accept_ok [OF assms] by simp
next
  case (on_reject_call client callId)
  then show ?thesis using reject_ok [OF assms] by simp
next
  case (on_end_call client callId)
  then show ?thesis using end_ok [OF assms] by simp
qed (use assms in \<open>simp_all add: relays_keep_state\<close>)

lemma run_ok:
  assumes "call_table_ok g"
  shows "call_table_ok (fst (run g evs)) \<and> statuses_move g (fst (run g evs))"
  using assms
proof (induction evs arbitrary: g)
  case Nil
  then show ?case by simp
next
  case (Cons x evs)
  obtain now newId ev where x: "x = (now, newId, ev)" by (cases x) auto
  let ?g1 = "fst (step now newId g ev)"
  from step_ok [OF Cons.prems, of now newId ev]
  have ok1: "call_table_ok ?g1" and m1: "statuses_move g ?g1" by simp_all
  from Cons.IH [OF ok1]
  have ok2: "call_table_ok (fst (run ?g1 evs))" and m2: "statuses_move ?g1 (fst (run ?g1 evs))"
    by simp_all
  show ?case
    using ok2 statuses_move_trans [OF m1 m2] by (simp add: x Let_def)
qed

lemma empty_table_ok: "activeCalls g = [] \<Longrightarrow> call_table_ok g"
  by (simp add: call_table_ok_def)





text \<open>
  Every state a fresh process can reach has its Call Table in order, and there the store,
  when it is up, takes the update of any call in the table.
\<close>

lemma reachable_table_ok: "activeCalls g = [] \<Longrightarrow> call_table_ok (fst (run g evs))"
  using run_ok [OF empty_table_ok] by simp

lemma live_call_in_store:
  assumes "call_table_ok g" and "map_of (activeCalls g) callId = Some call" and "up (prisma g)"
  shows "store_has_call g callId"
proof -
  have "callId \<in> set (map fst (activeCalls g))"
    using assms(2) by (rule map_of_keys)
  with assms(1) have "call_status_of (prisma g) callId \<noteq> None"
    by (auto simp: call_table_ok_def)
  then obtain row where "call_row_of (prisma g) callId = Some row"
    by (auto simp: call_status_of_row)
  then have "callId \<in> set (map call_id (calls (prisma g)))"
    using call_row_of_Some_iff [of "prisma g" callId] by blast
  with assms(3) show ?thesis
    by (simp add: store_has_call_def)
qed

section \<open>Disconnecting and reattaching\<close>

lemma live_frame: "sockets g' = sockets g \<Longrightarrow> live g' s = live g s"
  by (simp add: live_def isSocketConnected_def)


lemma disconnectCalls_table:
  "activeCalls (fst (disconnectCalls rest g userId now)) =
     filter (\<lambda>e. fst e \<notin> set (map fst (filter (\<lambda>e. involves userId (snd e)) rest)))
       (activeCalls g)"
proof (induction rest arbitrary: g)
  case Nil
  then show ?case by simp
next
  case (Cons entry rest)
  obtain callId call where entry: "entry = (callId, call)" by (cases entry) auto
  show ?case
  proof (cases "involves userId call")
    case False
    with Cons.IH [of g] show ?thesis
      by (simp add: entry involves_def)
  next
    case True
    let ?db = "case call_update (prisma g) callId (\<lambda>r. r\<lparr>status := ended, endedAt := Some now\<rparr>)
               of None \<Rightarrow> prisma g | Some db' \<Rightarrow> db'"
    let ?g1 = "g\<lparr>prisma := ?db, activeCalls := AList.delete callId (activeCalls g)\<rparr>"
    let ?ks = "set (map fst (filter (\<lambda>e. involves userId (snd e)) rest))"
    have "activeCalls (fst (disconnectCalls (entry # rest) g userId now)) =
          activeCalls (fst (disconnectCalls rest ?g1 userId now))"
      using True by (simp add: entry involves_def Let_def)
    also have "\<dots> = filter (\<lambda>e. fst e \<notin> ?ks) (AList.delete callId (activeCalls g))"
      using Cons.IH [of ?g1] by simp
    also have "\<dots> = filter (\<lambda>e. fst e \<notin> insert callId ?ks) (activeCalls g)"
      by (auto simp: AList.delete_eq intro: filter_cong)
    finally show ?thesis
      using True by (simp add: entry)
  qed
qed


lemma disconnectCalls_out:
  "snd (disconnectCalls rest g userId now) =
     concat (map (\<lambda>e. if involves userId (snd e) \<and> live g (counterparty userId (snd e))
                       then [(to_room (counterparty userId (snd e)), call_ended (fst e))]
                       else [])
               rest)"
proof (induction rest arbitrary: g)
  case Nil
  then show ?case by simp
next
  case (Cons entry rest)
  obtain callId call where entry: "entry = (callId, call)" by (cases entry) auto
  let ?note = "\<lambda>h e. if involves userId (snd e) \<and> live h (counterparty userId (snd e))
                       then [(to_room (counterparty userId (snd e)), call_ended (fst e))]
                       else []"
  show ?case
  proof (cases "involves userId call")
    case False
    have "snd (disconnectCalls (entry # rest) g userId now) =
          snd (disconnectCalls rest g userId now)"
      using False by (simp add: entry involves_def)
    also have "\<dots> = concat (map (?note g) rest)"
      by (rule Cons.IH)
    finally show ?thesis
      using False by (simp add: entry)
  next
    case True
    let ?db = "case call_update (prisma g) callId (\<lambda>r. r\<lparr>status := ended, endedAt := Some now\<rparr>)
               of None \<Rightarrow> prisma g | Some db' \<Rightarrow> db'"
    let ?g1 = "g\<lparr>prisma := ?db, activeCalls := AList.delete callId (activeCalls g)\<rparr>"
    have same: "live ?g1 s = live g s" for s
      by (rule live_frame) simp
    have "snd (disconnectCalls (entry # rest) g userId now) =
          ?note g entry @ snd (disconnectCalls rest ?g1 userId now)"
      using True by (simp add: entry involves_def counterparty_def Let_def)
    also have "snd (disconnectCalls rest ?g1 userId now) = concat (map (?note ?g1) rest)"
      by (rule Cons.IH)
    also have "concat (map (?note ?g1) rest) = concat (map (?note g) rest)"
      by (simp only: same)
    finally show ?thesis by simp
  qed
qed







lemma find_Some_in: "find P xs = Some x \<Longrightarrow> x \<in> set xs \<and> P x"
  by (induction xs) (auto split: if_splits)

lemma detach_schedules:
  assumes "map_of (connectedUsers g) userId = Some (client_id client)"
  shows "\<exists>u. (u, client_id client) \<in> set (connectedUsers g) \<and>
             handleDisconnect g client = g\<lparr>timers := timers g @ [(u, client_id client)]\<rparr>"
proof -
  have "(userId, client_id client) \<in> set (connectedUsers g)"
    using assms by (rule map_of_SomeD)
  then have "find (\<lambda>(u, s). s = client_id client) (connectedUsers g) \<noteq> None"
    by (auto simp: find_None_iff)
  then obtain u s where found: "find (\<lambda>(u, s). s = client_id client) (connectedUsers g) = Some (u, s)"
    by auto
  from find_Some_in [OF found]
  have "(u, s) \<in> set (connectedUsers g)" and "s = client_id client"
    by blast+
  with found show ?thesis
    by (auto simp: handleDisconnect_def)
qed

text \<open>
  A user reattaches with a new socket while the timer of the old one is still pending.
  The binding moves to the new socket; the Call Table keeps its keys; every call the user
  placed has the new socket as caller session, and every call the user receives from
  somebody else has it as receiver session; the store's calls are untouched; and when the
  timer of the old socket runs out it changes nothing and ends no call.
\<close>

lemma reattach_refreshes_calls:
  assumes "verify g client = Some userId"
  shows "(let g' = fst (handleConnection g client) in
            map_of (connectedUsers g') userId = Some (client_id client) \<and>
            map fst (activeCalls g') = map fst (activeCalls g) \<and>
            (\<forall>k c. map_of (activeCalls g) k = Some c \<longrightarrow>
               (\<exists>c'. map_of (activeCalls g') k = Some c' \<and>
                  (callerId c = userId \<longrightarrow> callerSocketId c' = client_id client) \<and>
                  (receiverId c = userId \<and> callerId c \<noteq> userId \<longrightarrow>
                     receiverSocketId c' = client_id client))) \<and>
            calls (prisma g') = calls (prisma g) \<and>
            (socketId \<noteq> client_id client \<longrightarrow>
               disconnectTimeout g' userId socketId now = (g', [])))"
proof -
  let ?upd = "\<lambda>call. if callerId call = userId then call\<lparr>callerSocketId := client_id client\<rparr>
                     else if receiverId call = userId
                          then call\<lparr>receiverSocketId := client_id client\<rparr>
                          else call"
  let ?g' = "g\<lparr>connectedUsers := AList.update userId (client_id client) (connectedUsers g),
               activeCalls := map (\<lambda>(callId, call). (callId, ?upd call)) (activeCalls g)\<rparr>"
  have res: "fst (handleConnection g client) = ?g'"
    using assms
    by (simp add: handleConnection_def updateUserSocketInActiveCalls_def Let_def)
  have bound: "map_of (connectedUsers ?g') userId = Some (client_id client)"
    by (simp add: AList.update_conv')
  have keys: "map fst (activeCalls ?g') = map fst (activeCalls g)"
    by (simp add: case_prod_beta comp_def)
  have refreshed: "\<exists>c'. map_of (activeCalls ?g') k = Some c' \<and>
                  (callerId c = userId \<longrightarrow> callerSocketId c' = client_id client) \<and>
                  (receiverId c = userId \<and> callerId c \<noteq> userId \<longrightarrow>
                     receiverSocketId c' = client_id client)"
    if "map_of (activeCalls g) k = Some c" for k c
  proof -
    have "map_of (activeCalls ?g') k = Some (?upd c)"
      using that by (simp add: map_of_map)
    then show ?thesis by auto
  qed
  have store: "calls (prisma ?g') = calls (prisma g)"
    by simp
  have timer: "disconnectTimeout ?g' userId socketId now = (?g', [])"
    if "socketId \<noteq> client_id client"
    using that bound by (simp add: disconnectTimeout_def del: gateway.simps)
  show ?thesis
    unfolding res Let_def
    using bound keys refreshed store timer by blast
qed

lemma g_self_call_eq:
  "g_self_call =
     \<lparr>sockets = [''s3'', ''s2''], connectedUsers = [(''A'', ''s3''), (''B'', ''s2'')],
      userActiveChats = [],
      activeCalls =
        [(''c7'',
          \<lparr>call_id = ''c7'', call_type = audio, status = initiated, duration = None,
           createdAt = 1000, endedAt = None, callerId = ''A'', receiverId = ''A'',
           caller = (''A'', ''alice'', None), receiver = (''A'', ''alice'', None),
           callerSocketId = ''s3'', receiverSocketId = ''s1''\<rparr>)],
      jwtService = jwt0,
      prisma =
        \<lparr>up = True, users = [alice, bob],
         calls = [\<lparr>call_id = ''c7'', call_type = audio, status = initiated, duration = None,
                   createdAt = 1000, endedAt = None, callerId = ''A'', receiverId = ''A''\<rparr>],
         messages = []\<rparr>,
      timers = [(''A'', ''s1'')]\<rparr>"
  by (simp add: g_self_call_def g_online_eq handleInitiateCall_def verify_def
      connectedSocket_def truthy_def call_create_def find_user_def profile_of_def
      handleDisconnect_def handleConnection_def updateUserSocketInActiveCalls_def
      sendUnreadCounts_def message_groupBy_def unread_by_sender_def
      sA_def sA2_def jwt0_def alice_def bob_def Let_def)

text \<open>
  C5 at a call a user placed to their own id. Alice calls the id \<open>A\<close>, socket \<open>s1\<close>
  closes, and Alice reattaches with \<open>s3\<close> while the timer is pending. The call is still in
  the table and bound to Alice on both sides, the caller session is the new socket, and the
  receiver session is still the closed socket \<open>s1\<close>: the loop takes the \<open>else if\<close>
  only when the user is not the caller. So an offer for this call cannot be relayed.
\<close>

theorem self_call_keeps_stale_receiver_session:
  "map_of (connectedUsers g_self_call) ''A'' = Some ''s3'' \<and>
   map_option callerId (map_of (activeCalls g_self_call) ''c7'') = Some ''A'' \<and>
   map_option receiverId (map_of (activeCalls g_self_call) ''c7'') = Some ''A'' \<and>
   map_option callerSocketId (map_of (activeCalls g_self_call) ''c7'') = Some ''s3'' \<and>
   map_option receiverSocketId (map_of (activeCalls g_self_call) ''c7'') = Some ''s1'' \<and>
   \<not> isSocketConnected g_self_call ''s1'' \<and>
   snd (handleWebRTCOffer g_self_call sA2 ''c7'' ''sdp'') =
     [(to_client ''s3'', call_failed (Reason ''Receiver disconnected''))]"
  by (simp add: g_self_call_eq isSocketConnected_def handleWebRTCOffer_def live_def
      truthy_def sA2_def)

section \<open>A call that has left the Call Table\<close>

text \<open>
  Three facts about one step: the store keeps every call id it has; a key that is new in
  the Call Table is the id of the record created in this step, which the store did not
  have; and \<open>call_ended\<close> is only emitted for a call that was in the Call Table.
\<close>

lemma call_update_ids:
  assumes "call_update db cid f = Some db'" and "\<And>r. call_id (f r) = call_id r"
  shows "map call_id (calls db') = map call_id (calls db)"
  using assms by (auto simp: call_update_Some comp_def cong: map_cong)

lemma call_update_id_set:
  assumes "call_update db cid f = Some db'" and "\<And>r. call_id (f r) = call_id r"
  shows "call_id ` set (calls db') = call_id ` set (calls db)"
proof -
  have "set (map call_id (calls db')) = set (map call_id (calls db))"
    using call_update_ids [OF assms] by simp
  then show ?thesis by simp
qed

lemma call_create_fresh:
  assumes "call_create db newId now ty st cr rc = Some (db', row, c, r)"
  shows "call_id row = newId \<and> newId \<notin> call_id ` set (calls db) \<and>
         call_id ` set (calls db') = insert newId (call_id ` set (calls db))"
  using call_create_Some [OF assms] by auto

lemma disconnectCalls_ids:
  "set (map call_id (calls (prisma (fst (disconnectCalls rest g userId now))))) =
   set (map call_id (calls (prisma g)))"
proof (induction rest arbitrary: g)
  case Nil
  then show ?case by simp
next
  case (Cons entry rest)
  obtain callId call where entry: "entry = (callId, call)" by (cases entry) auto
  let ?f = "\<lambda>r. r\<lparr>status := ended, endedAt := Some now\<rparr>"
  let ?db = "case call_update (prisma g) callId ?f of None \<Rightarrow> prisma g | Some db' \<Rightarrow> db'"
  have same: "map call_id (calls ?db) = map call_id (calls (prisma g))"
  proof (cases "call_update (prisma g) callId ?f")
    case None
    then show ?thesis by simp
  next
    case (Some db)
    from call_update_ids [OF Some] show ?thesis using Some by simp
  qed
  show ?case
  proof (cases "involves userId call")
    case False
    then show ?thesis using Cons.IH [of g] by (simp add: entry involves_def)
  next
    case True
    let ?g1 = "g\<lparr>prisma := ?db, activeCalls := AList.delete callId (activeCalls g)\<rparr>"
    have "fst (disconnectCalls (entry # rest) g userId now) =
          fst (disconnectCalls rest ?g1 userId now)"
      using True by (simp add: entry involves_def Let_def)
    then show ?thesis
      using Cons.IH [of ?g1] same by simp
  qed
qed

lemma step_ids:
  "set (map call_id (calls (prisma g))) \<subseteq>
   set (map call_id (calls (prisma (fst (step now newId g ev)))))"
proof (cases ev)
  case (attach client)
  then show ?thesis
    using connection_keeps_calls [of "g\<lparr>sockets := List.insert (client_id client) (sockets g)\<rparr>"
        client]
    by simp
next
  case (detach client)
  then show ?thesis
    using disconnect_keeps_calls [of "g\<lparr>sockets := removeAll (client_id client) (sockets g)\<rparr>"
        client]
    by simp
next
  case timer_fires
  then show ?thesis
    using disconnectCalls_ids
    by (simp add: disconnectTimeout_def handleUserDisconnectFromCalls_def
        split: list.splits prod.splits)
next
  case (on_send_file_message client r c fName fSize fType)
  then show ?thesis
    using file_message_keeps_calls [of g client r c fName fSize fType newId now] by simp
next
  case (on_send_message client r c)
  then show ?thesis using message_keeps_calls [of g client r c newId now] by simp
next
  case (on_mark_messages_read client s)
  then show ?thesis using mark_read_keeps_calls [of g client s] by simp
next
  case (on_set_active_chat client r)
  then show ?thesis using set_active_chat_keeps_calls [of g client r] by simp
next
  case (on_initiate_call client r ty)
  then show ?thesis
    by (auto simp: handleInitiateCall_def dest!: call_create_fresh split: option.splits)
next
  case (on_accept_call client callId)
  then show ?thesis
    by (auto simp: handleAcceptCall_def dest!: call_update_id_set split: option.splits)
next
  case (on_reject_call client callId)
  then show ?thesis
    by (auto simp: handleRejectCall_def dest!: call_update_id_set split: option.splits)
next
  case (on_end_call client callId)
  then show ?thesis
    by (auto simp: handleEndCall_def dest!: call_update_id_set split: option.splits)
qed (simp_all add: relays_keep_state)

lemma delete_keys_subset: "(a, b) \<in> set (AList.delete k al) \<Longrightarrow> a \<in> fst ` set al"
  by (auto simp: AList.delete_eq intro: rev_image_eqI)

lemma step_keys:
  "set (map fst (activeCalls (fst (step now newId g ev)))) \<subseteq>
   set (map fst (activeCalls g)) \<union> ({newId} - set (map call_id (calls (prisma g))))"
proof (cases ev)
  case (attach client)
  then show ?thesis
    using connection_keeps_calls [of "g\<lparr>sockets := List.insert (client_id client) (sockets g)\<rparr>"
        client]
    by simp
next
  case (detach client)
  then show ?thesis
    using disconnect_keeps_calls [of "g\<lparr>sockets := removeAll (client_id client) (sockets g)\<rparr>"
        client]
    by simp
next
  case timer_fires
  then show ?thesis
    by (auto simp: disconnectTimeout_def handleUserDisconnectFromCalls_def
        disconnectCalls_table split: list.splits prod.splits)
next
  case (on_send_file_message client r c fName fSize fType)
  then show ?thesis
    using file_message_keeps_calls [of g client r c fName fSize fType newId now] by simp
next
  case (on_send_message client r c)
  then show ?thesis using message_keeps_calls [of g client r c newId now] by simp
next
  case (on_mark_messages_read client s)
  then show ?thesis using mark_read_keeps_calls [of g client s] by simp
next
  case (on_set_active_chat client r)
  then show ?thesis using set_active_chat_keeps_calls [of g client r] by simp
next
  case (on_initiate_call client r ty)
  then show ?thesis
    by (auto simp: handleInitiateCall_def AList.dom_update
        dest!: call_create_fresh split: option.splits)
next
  case (on_accept_call client callId)
  then show ?thesis
    by (auto simp: handleAcceptCall_def AList.dom_update dest: map_of_keys
        split: option.splits)
next
  case (on_reject_call client callId)
  then show ?thesis
    by (auto simp: handleRejectCall_def dest: delete_keys_subset split: option.splits)
next
  case (on_end_call client callId)
  then show ?thesis
    by (auto simp: handleEndCall_def dest: delete_keys_subset split: option.splits)
qed (simp_all add: relays_keep_state)

lemma sendUnreadCounts_no_call_ended: "(d, call_ended k) \<notin> set (sendUnreadCounts g u)"
  by (auto simp: sendUnreadCounts_def split: option.splits)

lemma marked_read_no_call_ended:
  "(d, call_ended k) \<notin>
     set (case s of None \<Rightarrow> [] | Some s \<Rightarrow> [(to_room s, messages_marked_read a b)])"
  by (cases s) simp_all

lemma set_active_chat_no_call_ended:
  "(d, call_ended k) \<notin> set (snd (handleSetActiveChat g client chat))"
proof (cases "verify g client")
  case None
  then show ?thesis by (simp add: handleSetActiveChat_def)
next
  case (Some cur)
  note verified = this
  show ?thesis
  proof (cases "case chat of None \<Rightarrow> None | Some x \<Rightarrow> if truthy x then Some x else None")
    case None
    then show ?thesis using verified by (simp add: handleSetActiveChat_def)
  next
    case (Some peer)
    note wanted = this
    let ?g1 = "g\<lparr>userActiveChats := AList.update cur peer (userActiveChats g)\<rparr>"
    show ?thesis
    proof (cases "message_updateMany (prisma ?g1) peer cur")
      case None
      then show ?thesis using verified wanted by (simp add: handleSetActiveChat_def)
    next
      case (Some res)
      obtain db n where "res = (db, n)" by (cases res) auto
      with Some verified wanted
      have out: "snd (handleSetActiveChat g client chat) =
          sendUnreadCounts (?g1\<lparr>prisma := db\<rparr>) cur @
          (if n > 0 then (case connectedSocket (?g1\<lparr>prisma := db\<rparr>) peer of
                            None \<Rightarrow> []
                          | Some s \<Rightarrow> [(to_room s, messages_marked_read peer cur)])
           else [])"
        by (simp add: handleSetActiveChat_def Let_def)
      have counts: "(d, call_ended k) \<notin> set (sendUnreadCounts (?g1\<lparr>prisma := db\<rparr>) cur)"
        by (rule sendUnreadCounts_no_call_ended)
      have marked: "(d, call_ended k) \<notin>
          set (if n > 0 then (case connectedSocket (?g1\<lparr>prisma := db\<rparr>) peer of
                                None \<Rightarrow> []
                              | Some s \<Rightarrow> [(to_room s, messages_marked_read peer cur)])
               else [])"
        by (cases "n > 0") (simp_all add: marked_read_no_call_ended)
      from counts marked show ?thesis
        unfolding out by (simp only: set_append Un_iff) blast
    qed
  qed
qed

lemma step_call_ended:
  assumes "call_ended k \<in> snd ` set (snd (step now newId g ev))"
  shows "k \<in> set (map fst (activeCalls g))"
proof (cases ev)
  case (attach client)
  with assms show ?thesis
    by (auto simp: sendUnreadCounts_no_call_ended handleConnection_def Let_def split: option.splits)
next
  case (detach client)
  with assms show ?thesis by simp
next
  case timer_fires
  with assms show ?thesis
    by (force simp: disconnectTimeout_def handleUserDisconnectFromCalls_def
        disconnectCalls_out split: list.splits prod.splits if_splits)
next
  case (store_up b)
  with assms show ?thesis by simp
next
  case (on_file_webrtc_offer client t p)
  with assms show ?thesis
    by (auto simp: handleFileWebRTCOffer_def split: option.splits)
next
  case (on_file_webrtc_answer client t p)
  with assms show ?thesis
    by (auto simp: handleFileWebRTCAnswer_def split: option.splits)
next
  case (on_file_webrtc_ice_candidate client t p)
  with assms show ?thesis
    by (auto simp: handleFileWebRTCIceCandidate_def split: option.splits)
next
  case (on_send_file_message client r c fName fSize fType)
  with assms show ?thesis
    by (auto simp: sendUnreadCounts_no_call_ended handleFileMessage_def Let_def split: option.splits)
next
  case (on_check_user_online client u)
  with assms show ?thesis by (auto simp: handleCheckUserOnline_def)
next
  case (on_initiate_call client r ty)
  with assms show ?thesis
    by (auto simp: handleInitiateCall_def split: option.splits)
next
  case (on_accept_call client callId)
  with assms show ?thesis
    by (auto simp: handleAcceptCall_def split: option.splits if_splits)
next
  case (on_reject_call client callId)
  with assms show ?thesis
    by (auto simp: handleRejectCall_def split: option.splits if_splits)
next
  case (on_end_call client callId)
  with assms show ?thesis
    by (auto simp: handleEndCall_def dest: map_of_keys split: option.splits if_splits)
next
  case (on_webrtc_offer client callId p)
  with assms show ?thesis
    by (auto simp: handleWebRTCOffer_def split: option.splits if_splits)
next
  case (on_webrtc_answer client callId p)
  with assms show ?thesis
    by (auto simp: handleWebRTCAnswer_def split: option.splits if_splits)
next
  case (on_webrtc_ice_candidate client callId p)
  with assms show ?thesis
    by (auto simp: handleWebRTCIceCandidate_def Let_def split: option.splits if_splits)
next
  case (on_send_message client r c)
  with assms show ?thesis
    by (auto simp: sendUnreadCounts_no_call_ended handleMessage_def Let_def split: option.splits)
next
  case (on_get_messages client u)
  with assms show ?thesis
    by (auto simp: handleGetMessages_def split: option.splits)
next
  case (on_mark_messages_read client s)
  with assms show ?thesis
    by (auto simp: sendUnreadCounts_no_call_ended handleMarkMessagesRead_def Let_def split: option.splits)
next
  case (on_set_active_chat client r)
  with assms show ?thesis
    by (auto simp: set_active_chat_no_call_ended)
next
  case (on_get_unread_counts client)
  with assms show ?thesis
    by (auto simp: sendUnreadCounts_no_call_ended handleGetUnreadCounts_def split: option.splits)
qed

text \<open>
  So a call that the store has recorded and that is no longer in the Call Table never comes
  back, whatever the inputs, and no \<open>call_ended\<close> is emitted for it again.
\<close>

lemma gone_call_stays_gone:
  assumes "callId \<in> set (map call_id (calls (prisma g)))"
      and "callId \<notin> set (map fst (activeCalls g))"
  shows "callId \<notin> set (map fst (activeCalls (fst (run g evs)))) \<and>
         call_ended callId \<notin> snd ` set (snd (run g evs))"
  using assms
proof (induction evs arbitrary: g)
  case Nil
  then show ?case by simp
next
  case (Cons x evs)
  obtain now newId ev where x: "x = (now, newId, ev)" by (cases x) auto
  let ?g1 = "fst (step now newId g ev)"
  have held: "callId \<in> set (map call_id (calls (prisma ?g1)))"
    using step_ids [of g now newId ev] Cons.prems(1) by blast
  have gone: "callId \<notin> set (map fst (activeCalls ?g1))"
    using step_keys [of now newId g ev] Cons.prems by blast
  have quiet: "call_ended callId \<notin> snd ` set (snd (step now newId g ev))"
    using step_call_ended [of callId now newId g ev] Cons.prems(2) by blast
  from Cons.IH [OF held gone] quiet show ?case
    by (auto simp: x Let_def)
qed

end
